theory Spec2Isabelle
  imports Complex_Main
begin

section \<open>Data model\<close>

text \<open>
  The class \<open>ScrollySystem\<close> lives in the host page of a browser. The model keeps
  the instance's fields under their own names and writes out the host facilities the
  methods call: the page (DOM queries, geometry, computed style), the timer queue
  behind \<open>setTimeout\<close>/\<open>clearTimeout\<close>, the registrations of the
  \<open>IntersectionObserver\<close>, and the notifications that leave the instance.
  An element is an opaque handle.
\<close>

type_synonym elem = nat

text \<open>\<open>threshold\<close> is a number or an array of numbers.\<close>

datatype threshold_value = Scalar real | Array "real list"

record config =
  selector :: string
  triggerAttribute :: string
  threshold :: threshold_value
  rootMargin :: string
  debounceDelay :: int
  onChange :: bool \<comment> \<open>\<open>typeof onChange === 'function'\<close>\<close>
  debug :: bool

text \<open>
  The constructor's \<open>options\<close> object: every key may be absent, and a key that is
  present holds a value of its documented type.
\<close>

record options =
  opt_selector :: "string option"
  opt_triggerAttribute :: "string option"
  opt_threshold :: "threshold_value option"
  opt_rootMargin :: "string option"
  opt_debounceDelay :: "int option"
  opt_onChange :: "bool option"
  opt_debug :: "bool option"

text \<open>
  The host page as the methods read it. \<open>querySelectorAll\<close> answers the matching
  elements, or the \<open>SyntaxError\<close> the host raises for a selector it cannot parse;
  \<open>rootMarginValid\<close> says which margin strings the host's \<open>IntersectionObserver\<close>
  parses. \<open>getAttribute\<close> answers \<open>None\<close> (JavaScript
  \<open>null\<close>) for an attribute the element does not carry; \<open>rectTop\<close> is
  \<open>getBoundingClientRect().top\<close>; \<open>display\<close>, \<open>visibility\<close> and \<open>position\<close>
  are the computed style; \<open>intersectionObserver\<close> says whether the host defines
  \<open>IntersectionObserver\<close>.
\<close>

datatype error = ReferenceError | SyntaxError | RangeError

record page =
  readyState :: string
  querySelectorAll :: "string \<Rightarrow> error + elem list"
  rootMarginValid :: "string \<Rightarrow> bool"
  getAttribute :: "elem \<Rightarrow> string \<Rightarrow> string option"
  rectTop :: "elem \<Rightarrow> real"
  offsetHeight :: "elem \<Rightarrow> int"
  display :: "elem \<Rightarrow> string"
  visibility :: "elem \<Rightarrow> string"
  position :: "elem \<Rightarrow> string"
  innerHeight :: int
  bodyScrollHeight :: int
  documentScrollHeight :: int
  bodyOverflow :: string
  htmlOverflow :: string
  viewportMeta :: bool
  intersectionObserver :: bool

text \<open>The payload of a notification, and the two ways it leaves the instance.\<close>

record detail =
  current :: "string option"
  previous :: "string option"
  timestamp :: nat
  detail_instanceId :: string

datatype effect = OnChange detail | DispatchEvent detail

text \<open>
  A diagnostic issue. The \<open>message\<close> and \<open>suggestion\<close> texts are presentation only
  and are left out; \<open>type\<close>, \<open>severity\<close> and the optional element are kept.
\<close>

record issue =
  issue_type :: string
  severity :: string
  element :: "elem option"

record summary =
  totalElements :: nat
  problematicElements :: nat
  performanceScore :: real
  summary_timestamp :: nat

record result =
  status :: string
  issues :: "issue list"
  summary :: summary

text \<open>
  The host's timer queue. A pending timer has the handle \<open>setTimeout\<close> returned, the
  time it is due and the callback it runs: the debounced resolution pass, or the
  eviction of one diagnostic cache entry.
\<close>

datatype task = UpdateCurrentTrigger | EvictDiagnostic string

record timer =
  timer_id :: nat
  due :: nat
  task :: task

text \<open>
  The instance together with the host state it drives. \<open>observer\<close> is \<open>None\<close> for
  \<open>null\<close> and otherwise holds the observer's registered targets; \<open>visibleElements\<close>
  and \<open>diagnosticCache\<close> are JavaScript \<open>Map\<close>s, kept as association lists in
  insertion order, which is the order \<open>entries()\<close> iterates in; \<open>awaitingReady\<close>
  says that the \<open>DOMContentLoaded\<close> listener is registered and has not run.
  \<open>clock\<close>, \<open>timers\<close> and \<open>nextTimerId\<close> are the host's time and timer queue;
  \<open>fired\<close> logs the timer callbacks the host has run and \<open>egress\<close> the notifications
  sent, oldest first.
\<close>

record scrolly =
  config :: config
  observer :: "elem list option"
  visibleElements :: "(elem \<times> string option) list"
  currentTriggerId :: "string option"
  lastValidTriggerId :: "string option"
  debounceTimer :: "nat option"
  instanceId :: string
  diagnosticCache :: "(string \<times> result) list"
  awaitingReady :: bool
  clock :: nat
  timers :: "timer list"
  nextTimerId :: nat
  fired :: "(nat \<times> task) list"
  egress :: "effect list"

section \<open>Host facilities\<close>

subsection \<open>JavaScript \<open>Map\<close>\<close>

text \<open>\<open>Map.set\<close> overwrites the value of a key in place and appends a new key.\<close>

fun map_set :: "'k \<Rightarrow> 'v \<Rightarrow> ('k \<times> 'v) list \<Rightarrow> ('k \<times> 'v) list" where
  "map_set k v [] = [(k, v)]"
| "map_set k v (p # m) = (if fst p = k then (k, v) # m else p # map_set k v m)"

definition map_delete :: "'k \<Rightarrow> ('k \<times> 'v) list \<Rightarrow> ('k \<times> 'v) list" where
  "map_delete k m = filter (\<lambda>p. fst p \<noteq> k) m"

subsection \<open>Timers\<close>

text \<open>
  The queue is kept in the order the host runs it: by due time, and among timers due
  at the same time in the order they were set. A negative delay counts as zero.
\<close>

fun enqueue :: "timer \<Rightarrow> timer list \<Rightarrow> timer list" where
  "enqueue t [] = [t]"
| "enqueue t (u # us) = (if due u \<le> due t then u # enqueue t us else t # u # us)"

definition setTimeout :: "task \<Rightarrow> int \<Rightarrow> scrolly \<Rightarrow> nat \<times> scrolly" where
  "setTimeout tk wait s =
     (nextTimerId s,
      s\<lparr>timers := enqueue \<lparr>timer_id = nextTimerId s, due = clock s + nat wait, task = tk\<rparr> (timers s),
        nextTimerId := Suc (nextTimerId s)\<rparr>)"

definition clearTimeout :: "nat option \<Rightarrow> scrolly \<Rightarrow> scrolly" where
  "clearTimeout h s =
     (case h of
        None \<Rightarrow> s
      | Some i \<Rightarrow> s\<lparr>timers := filter (\<lambda>t. timer_id t \<noteq> i) (timers s)\<rparr>)"

subsection \<open>\<open>IntersectionObserver\<close> registrations\<close>

text \<open>
  \<open>new IntersectionObserver(callback, options)\<close>: a \<open>ReferenceError\<close> when the host
  does not define the constructor; otherwise the host parses \<open>rootMargin\<close>
  (\<open>SyntaxError\<close>), then checks that every threshold lies in [0,1] (\<open>RangeError\<close>),
  and yields an observer with no target.
\<close>

definition thresholds :: "threshold_value \<Rightarrow> real list" where
  "thresholds th = (case th of Scalar x \<Rightarrow> [x] | Array ts \<Rightarrow> ts)"

definition new_IntersectionObserver :: "page \<Rightarrow> threshold_value \<Rightarrow> string \<Rightarrow> error + elem list" where
  "new_IntersectionObserver pg th margin =
     (if \<not> intersectionObserver pg then Inl ReferenceError
      else if \<not> rootMarginValid pg margin then Inl SyntaxError
      else if list_ex (\<lambda>x. x < 0 \<or> 1 < x) (thresholds th) then Inl RangeError
      else Inr [])"

definition io_observe :: "elem \<Rightarrow> elem list \<Rightarrow> elem list" where
  "io_observe e targets = (if e \<in> set targets then targets else targets @ [e])"

definition io_unobserve :: "elem \<Rightarrow> elem list \<Rightarrow> elem list" where
  "io_unobserve e targets = removeAll e targets"

definition io_disconnect :: "elem list \<Rightarrow> elem list" where
  "io_disconnect targets = []"

section \<open>The trigger-resolution engine\<close>

text \<open>
  \<open>emitTriggerChange\<close>: the callback, when one is configured, then the
  \<open>scrollTrigger\<close> event, both with the same payload.
\<close>

definition emitTriggerChange :: "string option \<Rightarrow> string option \<Rightarrow> scrolly \<Rightarrow> scrolly" where
  "emitTriggerChange currentId previousId s =
     (let d = \<lparr>current = currentId, previous = previousId, timestamp = clock s,
                detail_instanceId = instanceId s\<rparr>;
          s1 = (if onChange (config s) then s\<lparr>egress := egress s @ [OnChange d]\<rparr> else s)
      in s1\<lparr>egress := egress s1 @ [DispatchEvent d]\<rparr>)"

definition setCurrentTrigger :: "string option \<Rightarrow> scrolly \<Rightarrow> scrolly" where
  "setCurrentTrigger triggerId s =
     (if currentTriggerId s \<noteq> triggerId
      then emitTriggerChange triggerId (currentTriggerId s) (s\<lparr>currentTriggerId := triggerId\<rparr>)
      else s)"

text \<open>
  The callback of \<open>entries.reduce\<close> in \<open>updateCurrentTrigger\<close>, and the reduction
  itself: without an initial value, \<open>reduce\<close> starts from the first entry and folds
  the rest from the left.
\<close>

definition higher :: "page \<Rightarrow> elem \<times> string option \<Rightarrow> elem \<times> string option \<Rightarrow> elem \<times> string option" where
  "higher pg prev cur = (if rectTop pg (fst cur) < rectTop pg (fst prev) then cur else prev)"

definition topEntry :: "page \<Rightarrow> elem \<times> string option \<Rightarrow> (elem \<times> string option) list \<Rightarrow> elem \<times> string option" where
  "topEntry pg e es = foldl (higher pg) e es"

definition updateCurrentTrigger :: "page \<Rightarrow> scrolly \<Rightarrow> scrolly" where
  "updateCurrentTrigger pg s =
     (case visibleElements s of
        e # es \<Rightarrow>
          (let triggerId = snd (topEntry pg e es)
           in setCurrentTrigger triggerId (s\<lparr>lastValidTriggerId := triggerId\<rparr>))
      | [] \<Rightarrow>
          (if lastValidTriggerId s \<noteq> None
           then setCurrentTrigger (lastValidTriggerId s) s
           else s))"

text \<open>
  \<open>debounce(func, wait)\<close>: the returned function cancels the pending timer and sets a
  new one. \<open>debouncedUpdate\<close> is the one \<open>init\<close> builds from it.
\<close>

definition debounce :: "task \<Rightarrow> int \<Rightarrow> scrolly \<Rightarrow> scrolly" where
  "debounce func wait s =
     (let s1 = clearTimeout (debounceTimer s) s;
          (h, s2) = setTimeout func wait s1
      in s2\<lparr>debounceTimer := Some h\<rparr>)"

definition debouncedUpdate :: "scrolly \<Rightarrow> scrolly" where
  "debouncedUpdate s = debounce UpdateCurrentTrigger (debounceDelay (config s)) s"

text \<open>
  The observer's callback in \<open>setupObserver\<close>: every entry of the batch is a target
  and its \<open>isIntersecting\<close> flag.
\<close>

definition intake :: "page \<Rightarrow> string \<Rightarrow> elem \<times> bool \<Rightarrow> (elem \<times> string option) list \<Rightarrow> (elem \<times> string option) list" where
  "intake pg attr entry m =
     (let triggerId = getAttribute pg (fst entry) attr
      in if snd entry then map_set (fst entry) triggerId m else map_delete (fst entry) m)"

definition observerCallback :: "page \<Rightarrow> (elem \<times> bool) list \<Rightarrow> scrolly \<Rightarrow> scrolly" where
  "observerCallback pg entries s =
     debouncedUpdate
       (s\<lparr>visibleElements := fold (intake pg (triggerAttribute (config s))) entries (visibleElements s)\<rparr>)"

definition getCurrentTriggerId :: "scrolly \<Rightarrow> string option" where
  "getCurrentTriggerId s = currentTriggerId s"

text \<open>\<open>observe\<close> and \<open>unobserve\<close>; the argument \<open>None\<close> is a \<open>null\<close> element.\<close>

definition observe :: "elem option \<Rightarrow> scrolly \<Rightarrow> scrolly" where
  "observe el s =
     (case (observer s, el) of
        (Some targets, Some e) \<Rightarrow> s\<lparr>observer := Some (io_observe e targets)\<rparr>
      | _ \<Rightarrow> s)"

definition unobserve :: "elem option \<Rightarrow> scrolly \<Rightarrow> scrolly" where
  "unobserve el s =
     (case (observer s, el) of
        (Some targets, Some e) \<Rightarrow>
          s\<lparr>observer := Some (io_unobserve e targets),
            visibleElements := map_delete e (visibleElements s)\<rparr>
      | _ \<Rightarrow> s)"

text \<open>
  \<open>destroy\<close>. The test \<open>if (this._debounceTimer)\<close> is false for \<open>null\<close> and for the
  handle 0. \<open>this.observer\<close> is disconnected and stays in place.
\<close>

definition destroy :: "scrolly \<Rightarrow> scrolly" where
  "destroy s =
     (let s1 = (case debounceTimer s of
                  None \<Rightarrow> s
                | Some h \<Rightarrow> if h = 0 then s else clearTimeout (Some h) s);
          s2 = (case observer s1 of
                  None \<Rightarrow> s1
                | Some targets \<Rightarrow> s1\<lparr>observer := Some (io_disconnect targets)\<rparr>)
      in s2\<lparr>visibleElements := [], currentTriggerId := None, lastValidTriggerId := None,
            diagnosticCache := []\<rparr>)"

section \<open>The diagnostics engine\<close>

definition mk_issue :: "string \<Rightarrow> string \<Rightarrow> elem option \<Rightarrow> issue" where
  "mk_issue ty sev el = \<lparr>issue_type = ty, severity = sev, element = el\<rparr>"

text \<open>
  The body of the \<open>forEach\<close> in \<open>validateElements\<close>, threading the issues and the
  set \<open>triggerIds\<close>. \<open>!triggerId\<close> holds for \<open>null\<close> and for the empty string.
\<close>

definition validateElement :: "page \<Rightarrow> config \<Rightarrow> elem \<Rightarrow> issue list \<times> string set \<Rightarrow> issue list \<times> string set" where
  "validateElement pg cfg el acc =
     (let triggerId = getAttribute pg el (triggerAttribute cfg);
          (issues1, triggerIds1) =
            (case triggerId of
               None \<Rightarrow> (fst acc @ [mk_issue ''missing_trigger_id'' ''error'' (Some el)], snd acc)
             | Some t \<Rightarrow>
                 if t = [] then (fst acc @ [mk_issue ''missing_trigger_id'' ''error'' (Some el)], snd acc)
                 else if t \<in> snd acc then (fst acc @ [mk_issue ''duplicate_trigger_id'' ''error'' (Some el)], snd acc)
                 else (fst acc, insert t (snd acc)));
          issues2 =
            (if real_of_int (offsetHeight pg el) < real_of_int (innerHeight pg) * 0.5
             then issues1 @ [mk_issue ''insufficient_height'' ''warning'' (Some el)]
             else issues1);
          issues3 =
            (if display pg el = ''none''
             then issues2 @ [mk_issue ''element_hidden'' ''error'' (Some el)]
             else if visibility pg el = ''hidden''
             then issues2 @ [mk_issue ''element_visibility_hidden'' ''warning'' (Some el)]
             else issues2);
          issues4 =
            (if position pg el = ''fixed''
             then issues3 @ [mk_issue ''fixed_position'' ''warning'' (Some el)]
             else issues3)
      in (issues4, triggerIds1))"

text \<open>
  \<open>validateElements\<close> and \<open>checkPerformance\<close> query the selector themselves; the
  exception of the query is theirs.
\<close>

definition validateElements :: "page \<Rightarrow> config \<Rightarrow> error + issue list" where
  "validateElements pg cfg =
     (case querySelectorAll pg (selector cfg) of
        Inl e \<Rightarrow> Inl e
      | Inr elements \<Rightarrow>
          Inr (if length elements = 0 then [mk_issue ''no_elements'' ''error'' None]
               else fst (fold (validateElement pg cfg) elements ([], {}))))"

definition checkPerformance :: "page \<Rightarrow> config \<Rightarrow> error + issue list" where
  "checkPerformance pg cfg =
     (case querySelectorAll pg (selector cfg) of
        Inl e \<Rightarrow> Inl e
      | Inr elements \<Rightarrow>
          (let issues1 =
                 (if length elements > 50 then [mk_issue ''too_many_elements'' ''warning'' None] else []);
               issues2 =
                 (case threshold cfg of
                    Array ts \<Rightarrow>
                      if length ts > 5 then issues1 @ [mk_issue ''complex_threshold'' ''warning'' None]
                      else issues1
                  | Scalar x \<Rightarrow>
                      if x = 1.0 then issues1 @ [mk_issue ''high_threshold'' ''warning'' None]
                      else issues1);
               issues3 =
                 (if debounceDelay cfg > 100 then issues2 @ [mk_issue ''high_debounce'' ''info'' None]
                  else if debounceDelay cfg < 5 then issues2 @ [mk_issue ''low_debounce'' ''info'' None]
                  else issues2)
           in Inr issues3))"

definition checkEnvironment :: "page \<Rightarrow> issue list" where
  "checkEnvironment pg =
     (let documentHeight = max (bodyScrollHeight pg) (documentScrollHeight pg);
          viewportHeight = innerHeight pg;
          issues1 =
            (if documentHeight \<le> viewportHeight then [mk_issue ''no_scroll'' ''error'' None] else []);
          issues2 =
            (if bodyOverflow pg = ''hidden'' \<or> htmlOverflow pg = ''hidden''
             then issues1 @ [mk_issue ''overflow_hidden'' ''error'' None]
             else issues1);
          issues3 =
            (if \<not> viewportMeta pg then issues2 @ [mk_issue ''no_viewport_meta'' ''warning'' None]
             else issues2);
          issues4 =
            (if \<not> intersectionObserver pg
             then issues3 @ [mk_issue ''no_intersection_observer'' ''error'' None]
             else issues3)
      in issues4)"

definition determineStatus :: "issue list \<Rightarrow> string" where
  "determineStatus iss =
     (if list_ex (\<lambda>i. severity i = ''error'') iss then ''error''
      else if list_ex (\<lambda>i. severity i = ''warning'') iss then ''warning''
      else ''ok'')"

definition countProblematicElements :: "issue list \<Rightarrow> nat" where
  "countProblematicElements iss = card (set (List.map_filter element iss))"

text \<open>
  The \<open>switch\<close> of \<open>_calculatePerformanceScore\<close> has no default: an issue of any
  other severity leaves the score as it is.
\<close>

definition deduct :: "issue \<Rightarrow> real \<Rightarrow> real" where
  "deduct i score =
     (if severity i = ''error'' then score - 3
      else if severity i = ''warning'' then score - 1
      else if severity i = ''info'' then score - 0.5
      else score)"

definition calculatePerformanceScore :: "issue list \<Rightarrow> real" where
  "calculatePerformanceScore iss = max 0 (fold deduct iss 10)"

text \<open>
  \<open>diagnose\<close>: a cached report is returned as it is; otherwise the three checks run, the
  report is stored under the key and a timer is set that evicts it after 5000 ms. An
  exception of a query leaves the instance as it was. The console output of debug or
  verbose mode is not modelled.
\<close>

definition cacheKey :: "bool \<Rightarrow> string" where
  "cacheKey verbose = ''diagnose_'' @ (if verbose then ''true'' else ''false'')"

definition diagnose :: "page \<Rightarrow> bool \<Rightarrow> scrolly \<Rightarrow> (error + result) \<times> scrolly" where
  "diagnose pg verbose s =
     (case map_of (diagnosticCache s) (cacheKey verbose) of
        Some r \<Rightarrow> (Inr r, s)
      | None \<Rightarrow>
          (case querySelectorAll pg (selector (config s)) of
             Inl e \<Rightarrow> (Inl e, s)
           | Inr elements \<Rightarrow>
          (case validateElements pg (config s) of
             Inl e \<Rightarrow> (Inl e, s)
           | Inr elementIssues \<Rightarrow>
          (case checkPerformance pg (config s) of
             Inl e \<Rightarrow> (Inl e, s)
           | Inr performanceIssues \<Rightarrow>
          (let iss = elementIssues @ performanceIssues @ checkEnvironment pg;
               r = \<lparr>status = determineStatus iss,
                    issues = iss,
                    summary = \<lparr>totalElements = length elements,
                                problematicElements = countProblematicElements iss,
                                performanceScore = calculatePerformanceScore iss,
                                summary_timestamp = clock s\<rparr>\<rparr>;
               s1 = s\<lparr>diagnosticCache := map_set (cacheKey verbose) r (diagnosticCache s)\<rparr>
           in (Inr r, snd (setTimeout (EvictDiagnostic (cacheKey verbose)) 5000 s1)))))))"

section \<open>Lifecycle\<close>

text \<open>
  \<open>setupObserver\<close>, \<open>setup\<close> (here \<open>setup_system\<close>) and \<open>init\<close>. An exception comes
  with the instance as it is when the exception is raised: \<open>this.observer\<close> is assigned
  before the targets are queried.
\<close>

definition setupObserver :: "page \<Rightarrow> scrolly \<Rightarrow> error \<times> scrolly + scrolly" where
  "setupObserver pg s =
     (case new_IntersectionObserver pg (threshold (config s)) (rootMargin (config s)) of
        Inl e \<Rightarrow> Inl (e, s)
      | Inr obs \<Rightarrow>
          (let s1 = s\<lparr>observer := Some obs\<rparr>
           in case querySelectorAll pg (selector (config s1)) of
                Inl e \<Rightarrow> Inl (e, s1)
              | Inr targets \<Rightarrow> Inr (s1\<lparr>observer := Some (fold io_observe targets obs)\<rparr>)))"

definition setup_system :: "page \<Rightarrow> scrolly \<Rightarrow> error \<times> scrolly + scrolly" where
  "setup_system pg s =
     (case setupObserver pg s of
        Inl x \<Rightarrow> Inl x
      | Inr s1 \<Rightarrow> Inr (updateCurrentTrigger pg s1))"

definition init :: "page \<Rightarrow> scrolly \<Rightarrow> error \<times> scrolly + scrolly" where
  "init pg s =
     (if readyState pg = ''loading'' then Inr (s\<lparr>awaitingReady := True\<rparr>) else setup_system pg s)"

definition default_config :: "options \<Rightarrow> config" where
  "default_config opts =
     \<lparr>selector = (case opt_selector opts of None \<Rightarrow> ''[data-trigger]'' | Some v \<Rightarrow> v),
      triggerAttribute = (case opt_triggerAttribute opts of None \<Rightarrow> ''data-trigger'' | Some v \<Rightarrow> v),
      threshold = (case opt_threshold opts of None \<Rightarrow> Scalar 0 | Some v \<Rightarrow> v),
      rootMargin = (case opt_rootMargin opts of None \<Rightarrow> ''0px'' | Some v \<Rightarrow> v),
      debounceDelay = (case opt_debounceDelay opts of None \<Rightarrow> 10 | Some v \<Rightarrow> v),
      onChange = (case opt_onChange opts of None \<Rightarrow> False | Some v \<Rightarrow> v),
      debug = (case opt_debug opts of None \<Rightarrow> False | Some v \<Rightarrow> v)\<rparr>"

text \<open>
  The constructor, on a host whose clock reads \<open>now\<close> and whose timer queue is empty;
  \<open>iid\<close> is the instance identifier the host's clock and random source yield.
  \<open>fresh_instance\<close> holds the fields as the constructor assigns them before it calls
  \<open>init\<close>. An exception of \<open>init\<close> leaves no instance.
\<close>

definition fresh_instance :: "config \<Rightarrow> string \<Rightarrow> nat \<Rightarrow> scrolly" where
  "fresh_instance cfg iid now =
     \<lparr>config = cfg,
      observer = None,
      visibleElements = [],
      currentTriggerId = None,
      lastValidTriggerId = None,
      debounceTimer = None,
      instanceId = iid,
      diagnosticCache = [],
      awaitingReady = False,
      clock = now,
      timers = [],
      nextTimerId = 1,
      fired = [],
      egress = []\<rparr>"

definition constructor :: "options \<Rightarrow> string \<Rightarrow> nat \<Rightarrow> page \<Rightarrow> error + scrolly" where
  "constructor opts iid now pg =
     (case init pg (fresh_instance (default_config opts) iid now) of
        Inl x \<Rightarrow> Inl (fst x)
      | Inr s \<Rightarrow> Inr s)"

section \<open>The host's event loop\<close>

text \<open>
  What a timer's callback does, and the host running the timers that are due, each at
  the time it is due. No callback sets a timer, so the due timers are the queue's
  prefix when the host starts running them.
\<close>

definition run_task :: "page \<Rightarrow> task \<Rightarrow> scrolly \<Rightarrow> scrolly" where
  "run_task pg tk s =
     (case tk of
        UpdateCurrentTrigger \<Rightarrow> updateCurrentTrigger pg s
      | EvictDiagnostic k \<Rightarrow> s\<lparr>diagnosticCache := map_delete k (diagnosticCache s)\<rparr>)"

fun fire :: "(nat \<Rightarrow> page) \<Rightarrow> timer list \<Rightarrow> scrolly \<Rightarrow> scrolly" where
  "fire pg [] s = s"
| "fire pg (t # ts) s =
     (let s1 = s\<lparr>clock := max (clock s) (due t)\<rparr>;
          s2 = s1\<lparr>fired := fired s1 @ [(clock s1, task t)]\<rparr>
      in fire pg ts (run_task (pg (clock s2)) (task t) s2))"

definition advance :: "(nat \<Rightarrow> page) \<Rightarrow> nat \<Rightarrow> scrolly \<Rightarrow> scrolly" where
  "advance pg t s =
     (let s1 = fire pg (takeWhile (\<lambda>u. due u \<le> t) (timers s))
                 (s\<lparr>timers := dropWhile (\<lambda>u. due u \<le> t) (timers s)\<rparr>)
      in s1\<lparr>clock := max (clock s1) t\<rparr>)"

text \<open>
  What can happen to an instance: the observer delivers a batch of entries, time passes
  up to \<open>t\<close>, the page becomes interactive, or the page's code calls a public
  operation. \<open>pg t\<close> is the page at time \<open>t\<close>. The host decides which entries a batch
  holds; the model accepts any batch. An exception of \<open>setup\<close> inside the
  \<open>DOMContentLoaded\<close> listener ends the listener and leaves the instance as it is
  then.
\<close>

datatype event =
    Batch "(elem \<times> bool) list"
  | Advance nat
  | DOMContentLoaded
  | Observe "elem option"
  | Unobserve "elem option"
  | Diagnose bool
  | Destroy

definition step :: "(nat \<Rightarrow> page) \<Rightarrow> scrolly \<Rightarrow> event \<Rightarrow> scrolly" where
  "step pg s ev =
     (case ev of
        Batch entries \<Rightarrow> observerCallback (pg (clock s)) entries s
      | Advance t \<Rightarrow> advance pg t s
      | DOMContentLoaded \<Rightarrow>
          (if awaitingReady s
           then (case setup_system (pg (clock s)) (s\<lparr>awaitingReady := False\<rparr>) of
                   Inl x \<Rightarrow> snd x
                 | Inr s1 \<Rightarrow> s1)
           else s)
      | Observe el \<Rightarrow> observe el s
      | Unobserve el \<Rightarrow> unobserve el s
      | Diagnose verbose \<Rightarrow> snd (diagnose (pg (clock s)) verbose s)
      | Destroy \<Rightarrow> destroy s)"

definition run :: "(nat \<Rightarrow> page) \<Rightarrow> scrolly \<Rightarrow> event list \<Rightarrow> scrolly" where
  "run pg s evs = foldl (step pg) s evs"

section \<open>Vocabulary of the properties\<close>

text \<open>The payloads broadcast as \<open>scrollTrigger\<close> events, and those handed to \<open>onChange\<close>.\<close>

definition broadcasts :: "scrolly \<Rightarrow> detail list" where
  "broadcasts s = concat (map (\<lambda>x. case x of DispatchEvent d \<Rightarrow> [d] | OnChange d \<Rightarrow> []) (egress s))"

definition callbacks :: "scrolly \<Rightarrow> detail list" where
  "callbacks s = concat (map (\<lambda>x. case x of OnChange d \<Rightarrow> [d] | DispatchEvent d \<Rightarrow> []) (egress s))"

text \<open>The performance score \<open>diagnose\<close> reports, or the exception it raises.\<close>

definition diagnosedScore :: "page \<Rightarrow> bool \<Rightarrow> scrolly \<Rightarrow> error + real" where
  "diagnosedScore pg verbose s =
     (case fst (diagnose pg verbose s) of
        Inl e \<Rightarrow> Inl e
      | Inr r \<Rightarrow> Inr (performanceScore (summary r)))"

text \<open>How many issues of a list carry a given severity.\<close>

definition count_severity :: "string \<Rightarrow> issue list \<Rightarrow> nat" where
  "count_severity sev iss = length (filter (\<lambda>i. severity i = sev) iss)"

text \<open>
  The issues of a report that concern the threshold, the types \<open>validateElements\<close>
  gives its issues, and the distinct values of a threshold configuration.
\<close>

definition threshold_issues :: "issue list \<Rightarrow> issue list" where
  "threshold_issues iss =
     filter (\<lambda>i. issue_type i = ''complex_threshold'' \<or> issue_type i = ''high_threshold'') iss"

definition validation_types :: "string set" where
  "validation_types = {''missing_trigger_id'', ''duplicate_trigger_id'', ''insufficient_height'',
     ''element_hidden'', ''element_visibility_hidden'', ''fixed_position''}"

definition distinct_thresholds :: "threshold_value \<Rightarrow> real set" where
  "distinct_thresholds th = (case th of Scalar x \<Rightarrow> {x} | Array ts \<Rightarrow> set ts)"

text \<open>
  \<open>pass_due t s\<close>: a debounced resolution pass is among the timers due by \<open>t\<close>.
  \<open>nonempty_pass pg s ev\<close>: the event \<open>ev\<close>, taken in state \<open>s\<close>, runs a resolution pass
  while the Visible Set is non-empty. \<open>seen_nonempty pg s evs\<close>: some event of the
  sequence does.
\<close>

definition pass_due :: "nat \<Rightarrow> scrolly \<Rightarrow> bool" where
  "pass_due t s = list_ex (\<lambda>u. task u = UpdateCurrentTrigger) (takeWhile (\<lambda>u. due u \<le> t) (timers s))"

fun nonempty_pass :: "(nat \<Rightarrow> page) \<Rightarrow> scrolly \<Rightarrow> event \<Rightarrow> bool" where
  "nonempty_pass pg s (Advance t) = (visibleElements s \<noteq> [] \<and> pass_due t s)"
| "nonempty_pass pg s DOMContentLoaded =
     (visibleElements s \<noteq> [] \<and> awaitingReady s \<and>
      (case setupObserver (pg (clock s)) s of Inl x \<Rightarrow> False | Inr s1 \<Rightarrow> True))"
| "nonempty_pass pg s ev = False"

fun seen_nonempty :: "(nat \<Rightarrow> page) \<Rightarrow> scrolly \<Rightarrow> event list \<Rightarrow> bool" where
  "seen_nonempty pg s [] = False"
| "seen_nonempty pg s (ev # evs) = (nonempty_pass pg s ev \<or> seen_nonempty pg (step pg s ev) evs)"

text \<open>The elements that the batches of a sequence of events report as intersecting.\<close>

fun intersecting :: "event list \<Rightarrow> elem list" where
  "intersecting [] = []"
| "intersecting (Batch entries # evs) = map fst (filter snd entries) @ intersecting evs"
| "intersecting (ev # evs) = intersecting evs"

text \<open>
  Every entry of the Visible Set carries an identifier; the current identifier is the
  last valid one.
\<close>

definition identified :: "(elem \<times> string option) list \<Rightarrow> bool" where
  "identified m = list_all (\<lambda>p. snd p \<noteq> None) m"

definition sticky_inv :: "scrolly \<Rightarrow> bool" where
  "sticky_inv s = (currentTriggerId s = lastValidTriggerId s)"

text \<open>Two states with the same Visible Set, Resolution State and configuration.\<close>

definition same_resolution :: "scrolly \<Rightarrow> scrolly \<Rightarrow> bool" where
  "same_resolution s s' =
     (currentTriggerId s' = currentTriggerId s \<and> lastValidTriggerId s' = lastValidTriggerId s \<and>
      visibleElements s' = visibleElements s \<and> config s' = config s)"






section \<open>Example inputs\<close>

text \<open>
  A page with three sections that carry \<open>data-trigger\<close> and one element (3) that does
  not; the first section lies lower in the viewport than the others.
\<close>

definition demo_page :: page where
  "demo_page =
     \<lparr>readyState = ''complete'',
      querySelectorAll = (\<lambda>sel. if sel = ''[data-trigger]'' then Inr [0, 1, 2]
                                else if sel = ''[[['' then Inl SyntaxError
                                else Inr []),
      rootMarginValid = (\<lambda>m. m = ''0px'' \<or> m = ''-100px 0px''),
      getAttribute = (\<lambda>e a. if a = ''data-trigger''
                              then (if e = 0 then Some ''intro''
                                    else if e = 1 then Some ''section1''
                                    else if e = 2 then Some ''section2''
                                    else None)
                              else None),
      rectTop = (\<lambda>e. if e = 0 then 600 else 40),
      offsetHeight = (\<lambda>e. 800),
      display = (\<lambda>e. ''block''),
      visibility = (\<lambda>e. ''visible''),
      position = (\<lambda>e. ''static''),
      innerHeight = 800,
      bodyScrollHeight = 2400,
      documentScrollHeight = 2400,
      bodyOverflow = ''visible'',
      htmlOverflow = ''visible'',
      viewportMeta = True,
      intersectionObserver = True\<rparr>"

definition no_options :: options where
  "no_options =
     \<lparr>opt_selector = None, opt_triggerAttribute = None, opt_threshold = None, opt_rootMargin = None,
      opt_debounceDelay = None, opt_onChange = None, opt_debug = None\<rparr>"

text \<open>The instance \<open>new ScrollySystem()\<close> yields on that page at time 0.\<close>

definition demo_instance :: scrolly where
  "demo_instance = (fresh_instance (default_config no_options) ''scrolly-0-demo'' 0)\<lparr>observer := Some [0, 1, 2]\<rparr>"

text \<open>
  The instance with all three sections visible, the instance after the first section
  became visible and was resolved, and two threshold configurations of six entries: one
  value six times, and six distinct values.
\<close>

definition demo_visible :: scrolly where
  "demo_visible =
     demo_instance\<lparr>visibleElements := [(0, Some ''intro''), (1, Some ''section1''), (2, Some ''section2'')]\<rparr>"

definition demo_resolved :: scrolly where
  "demo_resolved = run (\<lambda>t. demo_page) demo_instance [Batch [(0, True)], Advance 10]"

definition repeated_thresholds :: scrolly where
  "repeated_thresholds =
     demo_instance\<lparr>config := (config demo_instance)\<lparr>threshold := Array [0.5, 0.5, 0.5, 0.5, 0.5, 0.5]\<rparr>\<rparr>"

definition distinct_six :: scrolly where
  "distinct_six =
     demo_instance\<lparr>config := (config demo_instance)\<lparr>threshold := Array [0, 0.2, 0.4, 0.6, 0.8, 1]\<rparr>\<rparr>"

section \<open>Lemmas on the engine\<close>

lemma setCurrentTrigger_frame:
  "currentTriggerId (setCurrentTrigger t s) = t"
  "lastValidTriggerId (setCurrentTrigger t s) = lastValidTriggerId s"
  "visibleElements (setCurrentTrigger t s) = visibleElements s"
  "config (setCurrentTrigger t s) = config s"
  "timers (setCurrentTrigger t s) = timers s"
  "awaitingReady (setCurrentTrigger t s) = awaitingReady s"
  "clock (setCurrentTrigger t s) = clock s"
  "debounceTimer (setCurrentTrigger t s) = debounceTimer s"
  "fired (setCurrentTrigger t s) = fired s"
  "nextTimerId (setCurrentTrigger t s) = nextTimerId s"
  "observer (setCurrentTrigger t s) = observer s"
  by (simp_all add: setCurrentTrigger_def emitTriggerChange_def Let_def)

lemma updateCurrentTrigger_frame:
  "visibleElements (updateCurrentTrigger pg s) = visibleElements s"
  "config (updateCurrentTrigger pg s) = config s"
  "timers (updateCurrentTrigger pg s) = timers s"
  "awaitingReady (updateCurrentTrigger pg s) = awaitingReady s"
  "clock (updateCurrentTrigger pg s) = clock s"
  "debounceTimer (updateCurrentTrigger pg s) = debounceTimer s"
  "fired (updateCurrentTrigger pg s) = fired s"
  "nextTimerId (updateCurrentTrigger pg s) = nextTimerId s"
  "observer (updateCurrentTrigger pg s) = observer s"
  by (simp_all add: updateCurrentTrigger_def setCurrentTrigger_frame Let_def split: list.splits)

lemma updateCurrentTrigger_sticky: "sticky_inv s \<Longrightarrow> sticky_inv (updateCurrentTrigger pg s)"
  by (simp add: sticky_inv_def updateCurrentTrigger_def setCurrentTrigger_frame Let_def split: list.splits)

lemma updateCurrentTrigger_empty:
  "visibleElements s = [] \<Longrightarrow> sticky_inv s \<Longrightarrow> currentTriggerId (updateCurrentTrigger pg s) = currentTriggerId s"
  by (simp add: sticky_inv_def updateCurrentTrigger_def setCurrentTrigger_frame)

lemma topEntry_mem: "topEntry pg e es \<in> set (e # es)"
proof (induction es rule: rev_induct)
  case Nil
  show ?case by (simp add: topEntry_def)
next
  case (snoc x es)
  then show ?case by (auto simp add: topEntry_def higher_def)
qed

lemma updateCurrentTrigger_nonempty:
  assumes "visibleElements s \<noteq> []" "identified (visibleElements s)"
  shows "currentTriggerId (updateCurrentTrigger pg s) \<noteq> None"
proof -
  from assms(1) obtain e es where ves: "visibleElements s = e # es"
    by (cases "visibleElements s") auto
  have "snd (topEntry pg e es) \<noteq> None"
    using topEntry_mem[of pg e es] assms(2) unfolding ves identified_def list_all_iff by blast
  then show ?thesis
    by (simp add: updateCurrentTrigger_def ves Let_def setCurrentTrigger_frame)
qed

lemma updateCurrentTrigger_keeps:
  assumes "sticky_inv s" "identified (visibleElements s)" "currentTriggerId s \<noteq> None"
  shows "currentTriggerId (updateCurrentTrigger pg s) \<noteq> None"
proof (cases "visibleElements s = []")
  case True
  with assms show ?thesis by (simp add: updateCurrentTrigger_empty)
next
  case False
  with assms show ?thesis by (simp add: updateCurrentTrigger_nonempty)
qed

lemma run_task_frame:
  "visibleElements (run_task pg tk s) = visibleElements s"
  "config (run_task pg tk s) = config s"
  "awaitingReady (run_task pg tk s) = awaitingReady s"
  "timers (run_task pg tk s) = timers s"
  "clock (run_task pg tk s) = clock s"
  "debounceTimer (run_task pg tk s) = debounceTimer s"
  "fired (run_task pg tk s) = fired s"
  "nextTimerId (run_task pg tk s) = nextTimerId s"
  "observer (run_task pg tk s) = observer s"
  by (simp_all add: run_task_def updateCurrentTrigger_frame split: task.splits)

lemma run_task_sticky: "sticky_inv s \<Longrightarrow> sticky_inv (run_task pg tk s)"
  by (cases tk) (simp_all add: run_task_def updateCurrentTrigger_sticky, simp add: sticky_inv_def)

lemma fire_frame:
  "visibleElements (fire pg ts s) = visibleElements s \<and> config (fire pg ts s) = config s \<and>
   awaitingReady (fire pg ts s) = awaitingReady s \<and> timers (fire pg ts s) = timers s \<and>
   debounceTimer (fire pg ts s) = debounceTimer s \<and> nextTimerId (fire pg ts s) = nextTimerId s \<and>
   observer (fire pg ts s) = observer s"
  by (induction ts arbitrary: s) (simp_all add: Let_def run_task_frame)

lemma fire_sticky: "sticky_inv s \<Longrightarrow> sticky_inv (fire pg ts s)"
proof (induction ts arbitrary: s)
  case Nil
  then show ?case by simp
next
  case (Cons t ts)
  have "sticky_inv (s\<lparr>clock := max (clock s) (due t),
           fired := fired s @ [(max (clock s) (due t), task t)]\<rparr>)"
    using Cons.prems by (simp add: sticky_inv_def)
  then show ?case
    by (simp add: Let_def Cons.IH run_task_sticky)
qed

lemma run_task_quiet:
  assumes "sticky_inv s" "visibleElements s = [] \<or> tk \<noteq> UpdateCurrentTrigger"
  shows "currentTriggerId (run_task pg tk s) = currentTriggerId s"
  using assms by (cases tk) (auto simp add: run_task_def updateCurrentTrigger_empty)

lemma fire_quiet:
  assumes "sticky_inv s" "visibleElements s = [] \<or> \<not> list_ex (\<lambda>u. task u = UpdateCurrentTrigger) ts"
  shows "currentTriggerId (fire pg ts s) = currentTriggerId s"
  using assms
proof (induction ts arbitrary: s)
  case Nil
  then show ?case by simp
next
  case (Cons t ts)
  let ?s2 = "s\<lparr>clock := max (clock s) (due t), fired := fired s @ [(max (clock s) (due t), task t)]\<rparr>"
  let ?s3 = "run_task (pg (max (clock s) (due t))) (task t) ?s2"
  have inv2: "sticky_inv ?s2" using Cons.prems(1) by (simp add: sticky_inv_def)
  have q: "visibleElements ?s2 = [] \<or> task t \<noteq> UpdateCurrentTrigger"
    using Cons.prems(2) by auto
  have c3: "currentTriggerId ?s3 = currentTriggerId s"
    using run_task_quiet[OF inv2 q] by simp
  have "currentTriggerId (fire pg ts ?s3) = currentTriggerId ?s3"
  proof (rule Cons.IH)
    show "sticky_inv ?s3" by (rule run_task_sticky[OF inv2])
    show "visibleElements ?s3 = [] \<or> \<not> list_ex (\<lambda>u. task u = UpdateCurrentTrigger) ts"
      using Cons.prems(2) by (auto simp add: run_task_frame)
  qed
  with c3 show ?case by (simp add: Let_def)
qed

lemma run_task_keeps:
  assumes "sticky_inv s" "identified (visibleElements s)" "currentTriggerId s \<noteq> None"
  shows "currentTriggerId (run_task pg tk s) \<noteq> None"
  using assms by (cases tk) (simp_all add: run_task_def updateCurrentTrigger_keeps)

lemma fire_keeps:
  assumes "sticky_inv s" "identified (visibleElements s)" "currentTriggerId s \<noteq> None"
  shows "currentTriggerId (fire pg ts s) \<noteq> None"
  using assms
proof (induction ts arbitrary: s)
  case Nil
  then show ?case by simp
next
  case (Cons t ts)
  let ?s2 = "s\<lparr>clock := max (clock s) (due t), fired := fired s @ [(max (clock s) (due t), task t)]\<rparr>"
  let ?s3 = "run_task (pg (max (clock s) (due t))) (task t) ?s2"
  have inv2: "sticky_inv ?s2" using Cons.prems(1) by (simp add: sticky_inv_def)
  have id2: "identified (visibleElements ?s2)" using Cons.prems(2) by simp
  have c2: "currentTriggerId ?s2 \<noteq> None" using Cons.prems(3) by simp
  have "currentTriggerId (fire pg ts ?s3) \<noteq> None"
  proof (rule Cons.IH)
    show "sticky_inv ?s3" by (rule run_task_sticky[OF inv2])
    show "identified (visibleElements ?s3)" using id2 by (simp add: run_task_frame)
    show "currentTriggerId ?s3 \<noteq> None" by (rule run_task_keeps[OF inv2 id2 c2])
  qed
  then show ?case by (simp add: Let_def)
qed

lemma fire_resolves:
  assumes "sticky_inv s" "identified (visibleElements s)" "visibleElements s \<noteq> []"
    "list_ex (\<lambda>u. task u = UpdateCurrentTrigger) ts"
  shows "currentTriggerId (fire pg ts s) \<noteq> None"
  using assms
proof (induction ts arbitrary: s)
  case Nil
  then show ?case by simp
next
  case (Cons t ts)
  let ?s2 = "s\<lparr>clock := max (clock s) (due t), fired := fired s @ [(max (clock s) (due t), task t)]\<rparr>"
  let ?s3 = "run_task (pg (max (clock s) (due t))) (task t) ?s2"
  have inv2: "sticky_inv ?s2" using Cons.prems(1) by (simp add: sticky_inv_def)
  have id2: "identified (visibleElements ?s2)" using Cons.prems(2) by simp
  have inv3: "sticky_inv ?s3" by (rule run_task_sticky[OF inv2])
  have id3: "identified (visibleElements ?s3)" using id2 by (simp add: run_task_frame)
  show ?case
  proof (cases "task t = UpdateCurrentTrigger")
    case True
    have "currentTriggerId ?s3 \<noteq> None"
      using True Cons.prems(2,3) by (simp add: run_task_def updateCurrentTrigger_nonempty)
    then have "currentTriggerId (fire pg ts ?s3) \<noteq> None"
      by (rule fire_keeps[OF inv3 id3])
    then show ?thesis by (simp add: Let_def)
  next
    case False
    then have "list_ex (\<lambda>u. task u = UpdateCurrentTrigger) ts" using Cons.prems(4) by simp
    moreover have "visibleElements ?s3 \<noteq> []" using Cons.prems(3) by (simp add: run_task_frame)
    ultimately have "currentTriggerId (fire pg ts ?s3) \<noteq> None"
      using Cons.IH[OF inv3 id3] by blast
    then show ?thesis by (simp add: Let_def)
  qed
qed

lemma setCurrentTrigger_current: "currentTriggerId (setCurrentTrigger t s) = t"
  by (simp add: setCurrentTrigger_frame)

lemma setCurrentTrigger_lastValid: "lastValidTriggerId (setCurrentTrigger t s) = lastValidTriggerId s"
  by (simp add: setCurrentTrigger_frame)

lemma setCurrentTrigger_visible: "visibleElements (setCurrentTrigger t s) = visibleElements s"
  by (simp add: setCurrentTrigger_frame)

lemma setCurrentTrigger_same: "currentTriggerId s = t \<Longrightarrow> setCurrentTrigger t s = s"
  by (simp add: setCurrentTrigger_def)

lemma setCurrentTrigger_broadcasts:
  "broadcasts (setCurrentTrigger t s) =
     broadcasts s @ (if t \<noteq> currentTriggerId s
        then [\<lparr>current = t, previous = currentTriggerId s, timestamp = clock s, detail_instanceId = instanceId s\<rparr>]
        else [])"
  by (auto simp add: setCurrentTrigger_def emitTriggerChange_def Let_def broadcasts_def)

lemma setCurrentTrigger_callbacks:
  "callbacks (setCurrentTrigger t s) =
     callbacks s @ (if t \<noteq> currentTriggerId s \<and> onChange (config s)
        then [\<lparr>current = t, previous = currentTriggerId s, timestamp = clock s, detail_instanceId = instanceId s\<rparr>]
        else [])"
  by (auto simp add: setCurrentTrigger_def emitTriggerChange_def Let_def callbacks_def)

lemma updateCurrentTrigger_twice:
  "updateCurrentTrigger pg (updateCurrentTrigger pg s) = updateCurrentTrigger pg s"
proof (cases "visibleElements s")
  case Nil
  then show ?thesis 
    by (simp add: updateCurrentTrigger_def setCurrentTrigger_visible setCurrentTrigger_lastValid
        setCurrentTrigger_current setCurrentTrigger_same)
next
  case (Cons e es)
  let ?t = "snd (topEntry pg e es)"
  let ?s1 = "setCurrentTrigger ?t (s\<lparr>lastValidTriggerId := ?t\<rparr>)"
  have 1: "updateCurrentTrigger pg s = ?s1"
    by (simp add: updateCurrentTrigger_def Cons Let_def)
  have 2: "visibleElements ?s1 = e # es"
    by (simp add: setCurrentTrigger_visible Cons)
  have 3: "?s1\<lparr>lastValidTriggerId := ?t\<rparr> = ?s1"
    by (simp add: setCurrentTrigger_def emitTriggerChange_def Let_def)
  have "updateCurrentTrigger pg ?s1 = setCurrentTrigger ?t (?s1\<lparr>lastValidTriggerId := ?t\<rparr>)"
    using 2 by (simp add: updateCurrentTrigger_def Let_def)
  also have "\<dots> = ?s1"
    unfolding 3 by (rule setCurrentTrigger_same) (rule setCurrentTrigger_current)
  finally show ?thesis using 1 by simp
qed

lemma higher_cases: "topEntry pg e (es @ [x]) = higher pg (topEntry pg e es) x"
  by (simp add: topEntry_def)

lemma topEntry_first_min:
  "\<exists>i < length (e # es). topEntry pg e es = (e # es) ! i \<and>
     (\<forall>j < length (e # es). rectTop pg (fst ((e # es) ! i)) \<le> rectTop pg (fst ((e # es) ! j))) \<and>
     (\<forall>j < i. rectTop pg (fst ((e # es) ! i)) < rectTop pg (fst ((e # es) ! j)))"
proof (induction es rule: rev_induct)
  case Nil
  show ?case by (simp add: topEntry_def)
next
  case (snoc x es)
  then obtain i where i: "i < length (e # es)" "topEntry pg e es = (e # es) ! i"
    and le: "\<forall>j < length (e # es). rectTop pg (fst ((e # es) ! i)) \<le> rectTop pg (fst ((e # es) ! j))"
    and lt: "\<forall>j < i. rectTop pg (fst ((e # es) ! i)) < rectTop pg (fst ((e # es) ! j))"
    by blast
  let ?xs = "e # es @ [x]"
  have nth_old: "\<And>j. j < length (e # es) \<Longrightarrow> ?xs ! j = (e # es) ! j"
    by (metis append_Cons nth_append)
  have nth_new: "?xs ! length (e # es) = x"
    by (metis append_Cons nth_append_length)
  show ?case
  proof (cases "rectTop pg (fst x) < rectTop pg (fst ((e # es) ! i))")
    case True
    have "topEntry pg e (es @ [x]) = ?xs ! length (e # es)"
      using True i(2) nth_new by (simp add: higher_cases higher_def)
    moreover have "\<forall>j < length ?xs. rectTop pg (fst (?xs ! length (e # es))) \<le> rectTop pg (fst (?xs ! j))"
    proof (intro allI impI)
      fix j assume "j < length ?xs"
      then consider "j < length (e # es)" | "j = length (e # es)" by fastforce
      then show "rectTop pg (fst (?xs ! length (e # es))) \<le> rectTop pg (fst (?xs ! j))"
      proof cases
        case 1
        with le True nth_old[OF 1] nth_new show ?thesis by fastforce
      next
        case 2
        then show ?thesis by simp
      qed
    qed
    moreover have "\<forall>j < length (e # es). rectTop pg (fst (?xs ! length (e # es))) < rectTop pg (fst (?xs ! j))"
    proof (intro allI impI)
      fix j assume j: "j < length (e # es)"
      with le True nth_old[OF j] nth_new show "rectTop pg (fst (?xs ! length (e # es))) < rectTop pg (fst (?xs ! j))"
        by fastforce
    qed
    ultimately show ?thesis
      by (intro exI[of _ "length (e # es)"]) simp
  next
    case False
    have "topEntry pg e (es @ [x]) = ?xs ! i"
      using False i nth_old[OF i(1)] by (simp add: higher_cases higher_def)
    moreover have "\<forall>j < length ?xs. rectTop pg (fst (?xs ! i)) \<le> rectTop pg (fst (?xs ! j))"
    proof (intro allI impI)
      fix j assume "j < length ?xs"
      then consider "j < length (e # es)" | "j = length (e # es)" by fastforce
      then show "rectTop pg (fst (?xs ! i)) \<le> rectTop pg (fst (?xs ! j))"
      proof cases
        case 1
        with le nth_old[OF 1] nth_old[OF i(1)] show ?thesis by simp
      next
        case 2
        with False nth_new nth_old[OF i(1)] show ?thesis by simp
      qed
    qed
    moreover have "\<forall>j < i. rectTop pg (fst (?xs ! i)) < rectTop pg (fst (?xs ! j))"
    proof (intro allI impI)
      fix j assume j: "j < i"
      then have j': "j < length (e # es)" using i(1) by simp
      from lt j nth_old[OF j'] nth_old[OF i(1)] show "rectTop pg (fst (?xs ! i)) < rectTop pg (fst (?xs ! j))"
        by simp
    qed
    moreover have "i < length ?xs" using i(1) by simp
    ultimately show ?thesis by blast
  qed
qed

lemma fold_deduct:
  "fold deduct iss a =
     a - 3 * real (count_severity ''error'' iss) - real (count_severity ''warning'' iss)
       - real (count_severity ''info'' iss) / 2"
  by (induction iss arbitrary: a) (simp_all add: deduct_def count_severity_def add_divide_distrib)

lemma run_Nil: "run pg s [] = s"
  by (simp add: run_def)

lemma run_Cons: "run pg s (ev # evs) = run pg (step pg s ev) evs"
  by (simp add: run_def)

lemma identified_map_set: "identified m \<Longrightarrow> v \<noteq> None \<Longrightarrow> identified (map_set k v m)"
  by (induction m) (auto simp add: identified_def)

lemma identified_map_delete: "identified m \<Longrightarrow> identified (map_delete k m)"
  by (simp add: identified_def map_delete_def list_all_iff)

lemma identified_intake:
  assumes "\<forall>x \<in> set entries. snd x \<longrightarrow> getAttribute p (fst x) attr \<noteq> None" "identified m"
  shows "identified (fold (intake p attr) entries m)"
  using assms
proof (induction entries arbitrary: m)
  case Nil
  then show ?case by simp
next
  case (Cons x xs)
  have "identified (intake p attr x m)"
    using Cons.prems by (simp add: intake_def identified_map_set identified_map_delete)
  moreover have "\<forall>x \<in> set xs. snd x \<longrightarrow> getAttribute p (fst x) attr \<noteq> None"
    using Cons.prems(1) by simp
  ultimately show ?case using Cons.IH by simp
qed

lemma observerCallback_frame:
  "currentTriggerId (observerCallback p entries s) = currentTriggerId s"
  "lastValidTriggerId (observerCallback p entries s) = lastValidTriggerId s"
  "config (observerCallback p entries s) = config s"
  "visibleElements (observerCallback p entries s) =
     fold (intake p (triggerAttribute (config s))) entries (visibleElements s)"
  by (simp_all add: observerCallback_def debouncedUpdate_def debounce_def setTimeout_def
      clearTimeout_def Let_def split: option.splits)

lemma advance_frame:
  "visibleElements (advance pg t s) = visibleElements s" "config (advance pg t s) = config s"
  by (simp_all add: advance_def Let_def fire_frame)

lemma advance_current:
  "currentTriggerId (advance pg t s) =
     currentTriggerId (fire pg (takeWhile (\<lambda>u. due u \<le> t) (timers s))
        (s\<lparr>timers := dropWhile (\<lambda>u. due u \<le> t) (timers s)\<rparr>))"
  "lastValidTriggerId (advance pg t s) =
     lastValidTriggerId (fire pg (takeWhile (\<lambda>u. due u \<le> t) (timers s))
        (s\<lparr>timers := dropWhile (\<lambda>u. due u \<le> t) (timers s)\<rparr>))"
  by (simp_all add: advance_def Let_def)

lemma setupObserver_cases:
  "(\<exists>ts. setupObserver p s = Inr (s\<lparr>observer := Some ts\<rparr>)) \<or>
   (\<exists>e. setupObserver p s = Inl (e, s)) \<or>
   (\<exists>e. setupObserver p s = Inl (e, s\<lparr>observer := Some []\<rparr>))"
  by (auto simp add: setupObserver_def new_IntersectionObserver_def Let_def split: sum.splits)

lemma setupObserver_awaiting:
  "(case setupObserver p (s\<lparr>awaitingReady := b\<rparr>) of Inl x \<Rightarrow> False | Inr s1 \<Rightarrow> True) =
   (case setupObserver p s of Inl x \<Rightarrow> False | Inr s1 \<Rightarrow> True)"
  by (simp add: setupObserver_def Let_def split: sum.splits)

lemma same_resolution_sticky: "same_resolution s s' \<Longrightarrow> sticky_inv s \<Longrightarrow> sticky_inv s'"
  by (simp add: same_resolution_def sticky_inv_def)

text \<open>
  The \<open>DOMContentLoaded\<close> listener either runs the resolution pass of \<open>setup\<close>, on a
  state that differs from the one before in its observer only, or leaves the Visible
  Set, the Resolution State and the configuration as they are.
\<close>

lemma step_DOMContentLoaded:
  "(awaitingReady s \<and> (case setupObserver (pg (clock s)) s of Inl x \<Rightarrow> False | Inr s1 \<Rightarrow> True) \<and>
      (\<exists>s2. same_resolution s s2 \<and>
            step pg s DOMContentLoaded = updateCurrentTrigger (pg (clock s)) s2)) \<or>
   (\<not> (awaitingReady s \<and> (case setupObserver (pg (clock s)) s of Inl x \<Rightarrow> False | Inr s1 \<Rightarrow> True)) \<and>
      same_resolution s (step pg s DOMContentLoaded))"
proof (cases "awaitingReady s")
  case False
  then show ?thesis by (simp add: step_def same_resolution_def)
next
  case True
  let ?s0 = "s\<lparr>awaitingReady := False\<rparr>"
  let ?p = "pg (clock s)"
  from setupObserver_cases[of ?p ?s0]
  consider (ok) ts where "setupObserver ?p ?s0 = Inr (?s0\<lparr>observer := Some ts\<rparr>)"
    | (early) e where "setupObserver ?p ?s0 = Inl (e, ?s0)"
    | (late) e where "setupObserver ?p ?s0 = Inl (e, ?s0\<lparr>observer := Some []\<rparr>)"
    by blast
  then show ?thesis
  proof cases
    case ok
    have "case setupObserver ?p s of Inl x \<Rightarrow> False | Inr s1 \<Rightarrow> True"
      using setupObserver_awaiting[where p = ?p and s = s and b = False] ok by simp
    moreover have "same_resolution s (?s0\<lparr>observer := Some ts\<rparr>)"
      by (simp add: same_resolution_def)
    moreover have "step pg s DOMContentLoaded =
        updateCurrentTrigger ?p (?s0\<lparr>observer := Some ts\<rparr>)"
      using True ok by (simp add: step_def setup_system_def)
    ultimately show ?thesis using True by blast
  next
    case early
    have "\<not> (case setupObserver ?p s of Inl x \<Rightarrow> False | Inr s1 \<Rightarrow> True)"
      using setupObserver_awaiting[where p = ?p and s = s and b = False] early by simp
    moreover have "step pg s DOMContentLoaded = ?s0"
      using True early by (simp add: step_def setup_system_def)
    ultimately show ?thesis by (simp add: same_resolution_def)
  next
    case late
    have "\<not> (case setupObserver ?p s of Inl x \<Rightarrow> False | Inr s1 \<Rightarrow> True)"
      using setupObserver_awaiting[where p = ?p and s = s and b = False] late by simp
    moreover have "step pg s DOMContentLoaded = ?s0\<lparr>observer := Some []\<rparr>"
      using True late by (simp add: step_def setup_system_def)
    ultimately show ?thesis by (simp add: same_resolution_def)
  qed
qed

lemma diagnose_frame:
  "currentTriggerId (snd (diagnose p v s)) = currentTriggerId s"
  "lastValidTriggerId (snd (diagnose p v s)) = lastValidTriggerId s"
  "visibleElements (snd (diagnose p v s)) = visibleElements s"
  "config (snd (diagnose p v s)) = config s"
  by (simp_all add: diagnose_def setTimeout_def Let_def split: option.splits sum.splits)

lemma observe_frame:
  "currentTriggerId (observe el s) = currentTriggerId s"
  "lastValidTriggerId (observe el s) = lastValidTriggerId s"
  "visibleElements (observe el s) = visibleElements s"
  "config (observe el s) = config s"
  by (simp_all add: observe_def split: option.splits)

lemma unobserve_frame:
  "currentTriggerId (unobserve el s) = currentTriggerId s"
  "lastValidTriggerId (unobserve el s) = lastValidTriggerId s"
  "config (unobserve el s) = config s"
  by (simp_all add: unobserve_def split: option.splits)

lemma unobserve_identified: "identified (visibleElements s) \<Longrightarrow> identified (visibleElements (unobserve el s))"
  by (simp add: unobserve_def identified_map_delete split: option.splits)

lemma destroy_frame:
  "currentTriggerId (destroy s) = None" "lastValidTriggerId (destroy s) = None"
  "visibleElements (destroy s) = []" "config (destroy s) = config s"
  by (simp_all add: destroy_def clearTimeout_def Let_def split: option.splits)

lemma step_config: "config (step pg s ev) = config s"
proof (cases ev)
  case DOMContentLoaded
  from step_DOMContentLoaded[of s pg] show ?thesis
    unfolding DOMContentLoaded by (auto simp add: same_resolution_def updateCurrentTrigger_frame)
qed (simp_all add: step_def observerCallback_frame advance_frame observe_frame unobserve_frame
       diagnose_frame destroy_frame)

lemma step_sticky:
  assumes "sticky_inv s"
  shows "sticky_inv (step pg s ev)"
proof (cases ev)
  case (Batch entries)
  with assms show ?thesis by (simp add: step_def sticky_inv_def observerCallback_frame)
next
  case (Advance t)
  have "sticky_inv (s\<lparr>timers := dropWhile (\<lambda>u. due u \<le> t) (timers s)\<rparr>)"
    using assms by (simp add: sticky_inv_def)
  from fire_sticky[OF this] show ?thesis
    unfolding Advance by (simp add: step_def sticky_inv_def advance_current)
next
  case DOMContentLoaded
  from step_DOMContentLoaded[of s pg] show ?thesis
  proof (elim disjE conjE exE)
    fix s2
    assume s2: "same_resolution s s2"
      "step pg s DOMContentLoaded = updateCurrentTrigger (pg (clock s)) s2"
    have "sticky_inv s2" using s2(1) assms by (rule same_resolution_sticky)
    then have "sticky_inv (updateCurrentTrigger (pg (clock s)) s2)"
      by (rule updateCurrentTrigger_sticky)
    with s2(2) show ?thesis unfolding DOMContentLoaded by simp
  next
    assume "same_resolution s (step pg s DOMContentLoaded)"
    then show ?thesis unfolding DOMContentLoaded using assms by (rule same_resolution_sticky)
  qed
next
  case (Observe el)
  with assms show ?thesis by (simp add: step_def sticky_inv_def observe_frame)
next
  case (Unobserve el)
  with assms show ?thesis by (simp add: step_def sticky_inv_def unobserve_frame)
next
  case (Diagnose v)
  with assms show ?thesis by (simp add: step_def sticky_inv_def diagnose_frame)
next
  case Destroy
  then show ?thesis by (simp add: step_def sticky_inv_def destroy_frame)
qed

lemma intersecting_append: "intersecting (xs @ ys) = intersecting xs @ intersecting ys"
  by (induction xs rule: intersecting.induct) simp_all

lemma intersecting_Cons: "intersecting (ev # evs) = intersecting [ev] @ intersecting evs"
  by (cases ev) simp_all

lemma step_identified:
  assumes "\<forall>t. \<forall>e \<in> set (intersecting [ev]). getAttribute (pg t) e (triggerAttribute (config s)) \<noteq> None"
    "identified (visibleElements s)"
  shows "identified (visibleElements (step pg s ev))"
proof (cases ev)
  case (Batch entries)
  have "\<forall>x \<in> set entries. snd x \<longrightarrow> fst x \<in> set (intersecting [Batch entries])"
    by auto
  with assms(1) have "\<forall>x \<in> set entries. snd x \<longrightarrow>
      getAttribute (pg (clock s)) (fst x) (triggerAttribute (config s)) \<noteq> None"
    unfolding Batch by blast
  from identified_intake[OF this assms(2)] show ?thesis
    unfolding Batch by (simp add: step_def observerCallback_frame)
next
  case (Advance t)
  with assms(2) show ?thesis by (simp add: step_def advance_frame)
next
  case DOMContentLoaded
  from step_DOMContentLoaded[of s pg] assms(2) show ?thesis
    unfolding DOMContentLoaded by (auto simp add: same_resolution_def updateCurrentTrigger_frame)
next
  case (Observe el)
  with assms(2) show ?thesis by (simp add: step_def observe_frame)
next
  case (Unobserve el)
  with assms(2) show ?thesis by (simp add: step_def unobserve_identified)
next
  case (Diagnose v)
  with assms(2) show ?thesis by (simp add: step_def diagnose_frame)
next
  case Destroy
  then show ?thesis by (simp add: step_def destroy_frame identified_def)
qed

lemma step_quiet:
  assumes "sticky_inv s" "\<not> nonempty_pass pg s ev" "ev \<noteq> Destroy"
  shows "currentTriggerId (step pg s ev) = currentTriggerId s"
proof (cases ev)
  case (Batch entries)
  then show ?thesis by (simp add: step_def observerCallback_frame)
next
  case (Advance t)
  let ?s1 = "s\<lparr>timers := dropWhile (\<lambda>u. due u \<le> t) (timers s)\<rparr>"
  have "sticky_inv ?s1" using assms(1) by (simp add: sticky_inv_def)
  moreover have "visibleElements ?s1 = [] \<or>
      \<not> list_ex (\<lambda>u. task u = UpdateCurrentTrigger) (takeWhile (\<lambda>u. due u \<le> t) (timers s))"
    using assms(2) unfolding Advance by (simp add: pass_due_def)
  ultimately have "currentTriggerId (fire pg (takeWhile (\<lambda>u. due u \<le> t) (timers s)) ?s1) = currentTriggerId ?s1"
    by (rule fire_quiet)
  then show ?thesis unfolding Advance by (simp add: step_def advance_current)
next
  case DOMContentLoaded
  from step_DOMContentLoaded[of s pg] show ?thesis
  proof (elim disjE conjE exE)
    fix s2
    assume ok: "awaitingReady s"
      "case setupObserver (pg (clock s)) s of Inl x \<Rightarrow> False | Inr s1 \<Rightarrow> True"
      and s2: "same_resolution s s2"
      "step pg s DOMContentLoaded = updateCurrentTrigger (pg (clock s)) s2"
    from ok assms(2) have "visibleElements s = []" unfolding DOMContentLoaded by simp
    with s2(1) have "visibleElements s2 = []" by (simp add: same_resolution_def)
    moreover have "sticky_inv s2" using s2(1) assms(1) by (rule same_resolution_sticky)
    ultimately have "currentTriggerId (updateCurrentTrigger (pg (clock s)) s2) = currentTriggerId s2"
      by (rule updateCurrentTrigger_empty)
    with s2 show ?thesis unfolding DOMContentLoaded by (simp add: same_resolution_def)
  next
    assume "same_resolution s (step pg s DOMContentLoaded)"
    then show ?thesis unfolding DOMContentLoaded by (simp add: same_resolution_def)
  qed
next
  case (Observe el)
  then show ?thesis by (simp add: step_def observe_frame)
next
  case (Unobserve el)
  then show ?thesis by (simp add: step_def unobserve_frame)
next
  case (Diagnose v)
  then show ?thesis by (simp add: step_def diagnose_frame)
next
  case Destroy
  with assms(3) show ?thesis by simp
qed

lemma step_keeps:
  assumes "sticky_inv s" "identified (visibleElements s)" "currentTriggerId s \<noteq> None" "ev \<noteq> Destroy"
  shows "currentTriggerId (step pg s ev) \<noteq> None"
proof (cases ev)
  case (Batch entries)
  with assms(3) show ?thesis by (simp add: step_def observerCallback_frame)
next
  case (Advance t)
  let ?s1 = "s\<lparr>timers := dropWhile (\<lambda>u. due u \<le> t) (timers s)\<rparr>"
  have "sticky_inv ?s1" "identified (visibleElements ?s1)" "currentTriggerId ?s1 \<noteq> None"
    using assms by (simp_all add: sticky_inv_def)
  then have "currentTriggerId (fire pg (takeWhile (\<lambda>u. due u \<le> t) (timers s)) ?s1) \<noteq> None"
    by (rule fire_keeps)
  then show ?thesis unfolding Advance by (simp add: step_def advance_current)
next
  case DOMContentLoaded
  from step_DOMContentLoaded[of s pg] show ?thesis
  proof (elim disjE conjE exE)
    fix s2
    assume s2: "same_resolution s s2"
      "step pg s DOMContentLoaded = updateCurrentTrigger (pg (clock s)) s2"
    have "sticky_inv s2" using s2(1) assms(1) by (rule same_resolution_sticky)
    moreover have "identified (visibleElements s2)" "currentTriggerId s2 \<noteq> None"
      using s2(1) assms(2,3) by (simp_all add: same_resolution_def)
    ultimately have "currentTriggerId (updateCurrentTrigger (pg (clock s)) s2) \<noteq> None"
      by (rule updateCurrentTrigger_keeps)
    with s2(2) show ?thesis unfolding DOMContentLoaded by simp
  next
    assume "same_resolution s (step pg s DOMContentLoaded)"
    with assms(3) show ?thesis unfolding DOMContentLoaded by (simp add: same_resolution_def)
  qed
next
  case (Observe el)
  with assms(3) show ?thesis by (simp add: step_def observe_frame)
next
  case (Unobserve el)
  with assms(3) show ?thesis by (simp add: step_def unobserve_frame)
next
  case (Diagnose v)
  with assms(3) show ?thesis by (simp add: step_def diagnose_frame)
next
  case Destroy
  with assms(4) show ?thesis by simp
qed

lemma step_resolves:
  assumes "sticky_inv s" "identified (visibleElements s)" "nonempty_pass pg s ev"
  shows "currentTriggerId (step pg s ev) \<noteq> None"
proof (cases ev)
  case (Advance t)
  let ?s1 = "s\<lparr>timers := dropWhile (\<lambda>u. due u \<le> t) (timers s)\<rparr>"
  have "sticky_inv ?s1" "identified (visibleElements ?s1)" "visibleElements ?s1 \<noteq> []"
    "list_ex (\<lambda>u. task u = UpdateCurrentTrigger) (takeWhile (\<lambda>u. due u \<le> t) (timers s))"
    using assms unfolding Advance by (simp_all add: sticky_inv_def pass_due_def)
  then have "currentTriggerId (fire pg (takeWhile (\<lambda>u. due u \<le> t) (timers s)) ?s1) \<noteq> None"
    by (rule fire_resolves)
  then show ?thesis unfolding Advance by (simp add: step_def advance_current)
next
  case DOMContentLoaded
  from step_DOMContentLoaded[of s pg] show ?thesis
  proof (elim disjE conjE exE)
    fix s2
    assume s2: "same_resolution s s2"
      "step pg s DOMContentLoaded = updateCurrentTrigger (pg (clock s)) s2"
    have "visibleElements s2 \<noteq> []" "identified (visibleElements s2)"
      using s2(1) assms(2,3) unfolding DOMContentLoaded by (simp_all add: same_resolution_def)
    then have "currentTriggerId (updateCurrentTrigger (pg (clock s)) s2) \<noteq> None"
      by (rule updateCurrentTrigger_nonempty)
    with s2(2) show ?thesis unfolding DOMContentLoaded by simp
  next
    assume "\<not> (awaitingReady s \<and>
        (case setupObserver (pg (clock s)) s of Inl x \<Rightarrow> False | Inr s1 \<Rightarrow> True))"
    with assms(3) show ?thesis unfolding DOMContentLoaded by simp
  qed
qed (use assms(3) in simp_all)

lemma run_quiet:
  assumes "sticky_inv s" "Destroy \<notin> set evs" "\<not> seen_nonempty pg s evs"
  shows "currentTriggerId (run pg s evs) = currentTriggerId s"
  using assms
proof (induction evs arbitrary: s)
  case Nil
  then show ?case by (simp add: run_Nil)
next
  case (Cons ev evs)
  have "currentTriggerId (run pg (step pg s ev) evs) = currentTriggerId (step pg s ev)"
    using Cons.prems by (intro Cons.IH step_sticky) simp_all
  also have "\<dots> = currentTriggerId s"
    using Cons.prems by (intro step_quiet) auto
  finally show ?case by (simp add: run_Cons)
qed

text \<open>
  The invariants along a run, when every element that a batch of the run reports as
  intersecting carries the trigger attribute.
\<close>

lemma run_inv:
  assumes "sticky_inv s" "identified (visibleElements s)"
    "\<forall>t. \<forall>e \<in> set (intersecting evs). getAttribute (pg t) e (triggerAttribute (config s)) \<noteq> None"
  shows "sticky_inv (run pg s evs) \<and> identified (visibleElements (run pg s evs)) \<and>
         config (run pg s evs) = config s"
  using assms
proof (induction evs arbitrary: s)
  case Nil
  then show ?case by (simp add: run_Nil)
next
  case (Cons ev evs)
  from Cons.prems(3) have
    here: "\<forall>t. \<forall>e \<in> set (intersecting [ev]). getAttribute (pg t) e (triggerAttribute (config s)) \<noteq> None"
    and later: "\<forall>t. \<forall>e \<in> set (intersecting evs).
      getAttribute (pg t) e (triggerAttribute (config (step pg s ev))) \<noteq> None"
    by (subst (asm) intersecting_Cons, simp add: step_config)+
  have "sticky_inv (step pg s ev)" using Cons.prems(1) by (rule step_sticky)
  moreover have "identified (visibleElements (step pg s ev))"
    using here Cons.prems(2) by (rule step_identified)
  ultimately show ?case
    using Cons.IH[OF _ _ later] by (simp add: run_Cons step_config)
qed

lemma run_keeps:
  assumes "sticky_inv s" "identified (visibleElements s)"
    "\<forall>t. \<forall>e \<in> set (intersecting evs). getAttribute (pg t) e (triggerAttribute (config s)) \<noteq> None"
    "Destroy \<notin> set evs" "currentTriggerId s \<noteq> None"
  shows "currentTriggerId (run pg s evs) \<noteq> None"
  using assms
proof (induction evs arbitrary: s)
  case Nil
  then show ?case by (simp add: run_Nil)
next
  case (Cons ev evs)
  from Cons.prems(3) have
    here: "\<forall>t. \<forall>e \<in> set (intersecting [ev]). getAttribute (pg t) e (triggerAttribute (config s)) \<noteq> None"
    and later: "\<forall>t. \<forall>e \<in> set (intersecting evs).
      getAttribute (pg t) e (triggerAttribute (config (step pg s ev))) \<noteq> None"
    by (subst (asm) intersecting_Cons, simp add: step_config)+
  have "currentTriggerId (run pg (step pg s ev) evs) \<noteq> None"
  proof (rule Cons.IH)
    show "sticky_inv (step pg s ev)" using Cons.prems(1) by (rule step_sticky)
    show "identified (visibleElements (step pg s ev))" using here Cons.prems(2) by (rule step_identified)
    show "\<forall>t. \<forall>e \<in> set (intersecting evs).
      getAttribute (pg t) e (triggerAttribute (config (step pg s ev))) \<noteq> None"
      by (rule later)
    show "Destroy \<notin> set evs" using Cons.prems(4) by simp
    show "currentTriggerId (step pg s ev) \<noteq> None"
      using Cons.prems by (intro step_keeps) auto
  qed
  then show ?case by (simp add: run_Cons)
qed

lemma run_resolves:
  assumes "sticky_inv s" "identified (visibleElements s)"
    "\<forall>t. \<forall>e \<in> set (intersecting evs). getAttribute (pg t) e (triggerAttribute (config s)) \<noteq> None"
    "Destroy \<notin> set evs" "seen_nonempty pg s evs"
  shows "currentTriggerId (run pg s evs) \<noteq> None"
  using assms
proof (induction evs arbitrary: s)
  case Nil
  then show ?case by simp
next
  case (Cons ev evs)
  from Cons.prems(3) have
    here: "\<forall>t. \<forall>e \<in> set (intersecting [ev]). getAttribute (pg t) e (triggerAttribute (config s)) \<noteq> None"
    and H': "\<forall>t. \<forall>e \<in> set (intersecting evs).
      getAttribute (pg t) e (triggerAttribute (config (step pg s ev))) \<noteq> None"
    by (subst (asm) intersecting_Cons, simp add: step_config)+
  have inv': "sticky_inv (step pg s ev)" using Cons.prems(1) by (rule step_sticky)
  have id': "identified (visibleElements (step pg s ev))" using here Cons.prems(2) by (rule step_identified)
  have nd: "Destroy \<notin> set evs" using Cons.prems(4) by simp
  show ?case
  proof (cases "nonempty_pass pg s ev")
    case True
    have "currentTriggerId (step pg s ev) \<noteq> None"
      using Cons.prems(1,2) True by (rule step_resolves)
    with inv' id' H' nd have "currentTriggerId (run pg (step pg s ev) evs) \<noteq> None"
      by (rule run_keeps)
    then show ?thesis by (simp add: run_Cons)
  next
    case False
    with Cons.prems(5) have "seen_nonempty pg (step pg s ev) evs" by simp
    with inv' id' H' nd have "currentTriggerId (run pg (step pg s ev) evs) \<noteq> None"
      by (rule Cons.IH)
    then show ?thesis by (simp add: run_Cons)
  qed
qed

lemma constructor_fresh:
  assumes "constructor opts iid now p = Inr s"
  shows "currentTriggerId s = None \<and> lastValidTriggerId s = None \<and> visibleElements s = [] \<and>
         config s = default_config opts \<and> timers s = [] \<and> debounceTimer s = None \<and> fired s = [] \<and>
         clock s = now \<and> egress s = []"
  using assms
  by (auto simp add: constructor_def fresh_instance_def init_def setup_system_def setupObserver_def
      Let_def updateCurrentTrigger_def split: if_splits sum.splits)

lemma run_append: "run pg s (xs @ ys) = run pg (run pg s xs) ys"
  by (simp add: run_def)











subsection \<open>Diagnostics\<close>

lemma validateElement_types:
  assumes "\<forall>i \<in> set (fst acc). issue_type i \<in> validation_types"
  shows "\<forall>i \<in> set (fst (validateElement pg cfg el acc)). issue_type i \<in> validation_types"
  using assms
  by (auto simp add: validateElement_def Let_def mk_issue_def validation_types_def
      split: option.splits if_splits)

lemma fold_validateElement_types:
  assumes "\<forall>i \<in> set (fst acc). issue_type i \<in> validation_types"
  shows "\<forall>i \<in> set (fst (fold (validateElement pg cfg) els acc)). issue_type i \<in> validation_types"
  using assms
proof (induction els arbitrary: acc)
  case Nil
  then show ?case by simp
next
  case (Cons el els)
  from validateElement_types[OF Cons.prems]
  have "\<forall>i \<in> set (fst (validateElement pg cfg el acc)). issue_type i \<in> validation_types" .
  from Cons.IH[OF this] show ?case by simp
qed

lemma threshold_issues_append: "threshold_issues (xs @ ys) = threshold_issues xs @ threshold_issues ys"
  by (simp add: threshold_issues_def)

lemma validateElements_no_threshold:
  assumes "validateElements pg cfg = Inr iss"
  shows "threshold_issues iss = []"
proof -
  from assms obtain els where
    iss: "iss = (if length els = 0 then [mk_issue ''no_elements'' ''error'' None]
                 else fst (fold (validateElement pg cfg) els ([], {})))"
    by (auto simp add: validateElements_def split: sum.splits)
  have "\<forall>i \<in> set iss. issue_type i \<in> insert ''no_elements'' validation_types"
    using fold_validateElement_types[of "([], {})" pg cfg els]
    unfolding iss by (auto simp add: mk_issue_def)
  then have "\<forall>i \<in> set iss.
      issue_type i \<noteq> ''complex_threshold'' \<and> issue_type i \<noteq> ''high_threshold''"
    by (auto simp add: validation_types_def)
  then show ?thesis
    by (simp add: threshold_issues_def filter_empty_conv)
qed

lemma checkEnvironment_no_threshold: "threshold_issues (checkEnvironment pg) = []"
  by (simp add: checkEnvironment_def Let_def mk_issue_def threshold_issues_def)

lemma checkPerformance_threshold:
  assumes "checkPerformance pg cfg = Inr iss"
  shows "threshold_issues iss =
     (case threshold cfg of
        Array ts \<Rightarrow> if 5 < length ts then [mk_issue ''complex_threshold'' ''warning'' None] else []
      | Scalar x \<Rightarrow> if x = 1 then [mk_issue ''high_threshold'' ''warning'' None] else [])"
  using assms
  by (auto simp add: checkPerformance_def Let_def mk_issue_def threshold_issues_def
      split: sum.splits threshold_value.splits)

text \<open>
  On a cache miss \<open>diagnose\<close> raises what its first query raises, and otherwise
  returns the report built from the issues of the three checks.
\<close>

lemma diagnose_raises:
  assumes "map_of (diagnosticCache s) (cacheKey v) = None"
    "querySelectorAll pg (selector (config s)) = Inl e"
  shows "diagnose pg v s = (Inl e, s)"
  using assms by (simp add: diagnose_def)

lemma diagnose_computed:
  assumes "map_of (diagnosticCache s) (cacheKey v) = None"
    "querySelectorAll pg (selector (config s)) = Inr els"
  shows "\<exists>a b r. validateElements pg (config s) = Inr a \<and> checkPerformance pg (config s) = Inr b \<and>
           fst (diagnose pg v s) = Inr r \<and> issues r = a @ b @ checkEnvironment pg \<and>
           status r = determineStatus (issues r) \<and>
           performanceScore (summary r) = calculatePerformanceScore (issues r)"
  using assms by (simp add: diagnose_def validateElements_def checkPerformance_def Let_def)

lemma diagnose_threshold_issues:
  assumes "map_of (diagnosticCache s) (cacheKey v) = None"
    "querySelectorAll pg (selector (config s)) = Inr els"
  shows "\<exists>r. fst (diagnose pg v s) = Inr r \<and>
           threshold_issues (issues r) =
             (case threshold (config s) of
                Array ts \<Rightarrow> if 5 < length ts then [mk_issue ''complex_threshold'' ''warning'' None] else []
              | Scalar x \<Rightarrow> if x = 1 then [mk_issue ''high_threshold'' ''warning'' None] else [])"
proof -
  from diagnose_computed[OF assms] obtain a b r where
    a: "validateElements pg (config s) = Inr a" and b: "checkPerformance pg (config s) = Inr b"
    and r: "fst (diagnose pg v s) = Inr r" "issues r = a @ b @ checkEnvironment pg"
    by blast
  have "threshold_issues (issues r) = threshold_issues b"
    unfolding r(2)
    by (simp add: threshold_issues_append validateElements_no_threshold[OF a]
        checkEnvironment_no_threshold)
  with r(1) checkPerformance_threshold[OF b] show ?thesis by simp
qed

lemma card_distinct_le: "5 < card (set ts) \<Longrightarrow> 5 < length ts"
  using card_length[of ts] by simp

subsection \<open>Dynamic registration\<close>

lemma map_delete_absent: "k \<notin> fst ` set m \<Longrightarrow> map_delete k m = m"
  by (induction m) (auto simp add: map_delete_def)

lemma diagnose_observe: "fst (diagnose pg v (observe el s)) = fst (diagnose pg v s)"
  by (simp add: diagnose_def observe_def setTimeout_def Let_def split: option.splits sum.splits)

lemma diagnose_unobserve: "fst (diagnose pg v (unobserve el s)) = fst (diagnose pg v s)"
  by (simp add: diagnose_def unobserve_def setTimeout_def Let_def split: option.splits sum.splits)

subsection \<open>Construction\<close>

text \<open>
  The outcome of the constructor: an instance that awaits \<open>DOMContentLoaded\<close> on a
  loading page; on an interactive page what the host raises when the observer is created
  or the targets are queried, and otherwise an instance that observes the targets.
\<close>

lemma constructor_eq:
  "constructor opts iid now p =
     (if readyState p = ''loading''
      then Inr ((fresh_instance (default_config opts) iid now)\<lparr>awaitingReady := True\<rparr>)
      else (case new_IntersectionObserver p (threshold (default_config opts))
                   (rootMargin (default_config opts)) of
              Inl e \<Rightarrow> Inl e
            | Inr obs \<Rightarrow>
                (case querySelectorAll p (selector (default_config opts)) of
                   Inl e \<Rightarrow> Inl e
                 | Inr targets \<Rightarrow>
                     Inr ((fresh_instance (default_config opts) iid now)
                            \<lparr>observer := Some (fold io_observe targets obs)\<rparr>))))"
  by (simp add: constructor_def init_def setup_system_def setupObserver_def Let_def
      updateCurrentTrigger_def fresh_instance_def split: sum.splits)

lemma default_config_debounceDelay:
  "default_config (opts\<lparr>opt_debounceDelay := d\<rparr>) =
     (default_config opts)\<lparr>debounceDelay := (case d of None \<Rightarrow> 10 | Some v \<Rightarrow> v)\<rparr>"
  by (simp add: default_config_def)

lemma fresh_instance_debounceDelay:
  "fresh_instance (cfg\<lparr>debounceDelay := v\<rparr>) iid now =
     (fresh_instance cfg iid now)\<lparr>config := (config (fresh_instance cfg iid now))\<lparr>debounceDelay := v\<rparr>\<rparr>"
  by (simp add: fresh_instance_def)

lemma constructor_debounceDelay:
  "constructor (opts\<lparr>opt_debounceDelay := d\<rparr>) iid now p =
     (case constructor opts iid now p of
        Inl e \<Rightarrow> Inl e
      | Inr s \<Rightarrow> Inr (s\<lparr>config := (config s)\<lparr>debounceDelay := (case d of None \<Rightarrow> 10 | Some v \<Rightarrow> v)\<rparr>\<rparr>))"
  unfolding constructor_eq default_config_debounceDelay
  by (simp add: fresh_instance_def split: sum.splits)

subsection \<open>Evaluating the examples\<close>

lemmas engine_defs = run_def step_def observerCallback_def intake_def debouncedUpdate_def debounce_def
  setTimeout_def clearTimeout_def advance_def run_task_def updateCurrentTrigger_def topEntry_def higher_def
  setCurrentTrigger_def emitTriggerChange_def observe_def unobserve_def io_observe_def io_unobserve_def
  map_delete_def getCurrentTriggerId_def Let_def

lemmas demo_defs = demo_instance_def fresh_instance_def demo_page_def default_config_def no_options_def

lemmas constructor_defs = constructor_def fresh_instance_def init_def setup_system_def setupObserver_def
  new_IntersectionObserver_def thresholds_def updateCurrentTrigger_def io_observe_def Let_def

lemma demo_constructed: "constructor no_options ''scrolly-0-demo'' 0 demo_page = Inr demo_instance"
  by (simp add: constructor_defs demo_defs)

text \<open>
  Options the host rejects on the example page: a threshold outside [0,1], a margin it
  cannot parse, a selector it cannot parse.
\<close>

lemma demo_rejected:
  "constructor (no_options\<lparr>opt_threshold := Some (Scalar 2)\<rparr>) ''scrolly-0-demo'' 0 demo_page =
     Inl RangeError"
  "constructor (no_options\<lparr>opt_rootMargin := Some ''abc''\<rparr>) ''scrolly-0-demo'' 0 demo_page =
     Inl SyntaxError"
  "constructor (no_options\<lparr>opt_selector := Some ''[[[''\<rparr>) ''scrolly-0-demo'' 0 demo_page =
     Inl SyntaxError"
  by (simp_all add: constructor_defs demo_defs)

section \<open>The claims\<close>

text \<open>
  Claim C1. For every non-empty Visible Set, the resolution pass picks an entry whose
  element's \<open>top\<close> is smallest; every entry before it in iteration order has a strictly
  larger \<open>top\<close>, so among equal smallest tops the first-encountered entry wins. The pass
  sets \<open>lastValidTriggerId\<close> to that entry's identifier and \<open>getCurrentTriggerId\<close>
  returns it.
\<close>

theorem updateCurrentTrigger_selects_topmost:
  assumes "visibleElements s \<noteq> []"
  shows "\<exists>i < length (visibleElements s).
     (\<forall>j < length (visibleElements s).
        rectTop pg (fst (visibleElements s ! i)) \<le> rectTop pg (fst (visibleElements s ! j))) \<and>
     (\<forall>j < i. rectTop pg (fst (visibleElements s ! i)) < rectTop pg (fst (visibleElements s ! j))) \<and>
     lastValidTriggerId (updateCurrentTrigger pg s) = snd (visibleElements s ! i) \<and>
     getCurrentTriggerId (updateCurrentTrigger pg s) = snd (visibleElements s ! i)"
proof -
  from assms obtain e es where ves: "visibleElements s = e # es"
    by (cases "visibleElements s") auto
  from topEntry_first_min[of e es pg] obtain i where
    "i < length (e # es)" "topEntry pg e es = (e # es) ! i"
    "\<forall>j < length (e # es). rectTop pg (fst ((e # es) ! i)) \<le> rectTop pg (fst ((e # es) ! j))"
    "\<forall>j < i. rectTop pg (fst ((e # es) ! i)) < rectTop pg (fst ((e # es) ! j))"
    by blast
  moreover have "lastValidTriggerId (updateCurrentTrigger pg s) = snd (topEntry pg e es)"
    by (simp add: updateCurrentTrigger_def ves Let_def setCurrentTrigger_lastValid)
  moreover have "getCurrentTriggerId (updateCurrentTrigger pg s) = snd (topEntry pg e es)"
    by (simp add: updateCurrentTrigger_def ves Let_def setCurrentTrigger_current getCurrentTriggerId_def)
  ultimately show ?thesis unfolding ves by metis
qed

text \<open>
  With the three sections visible at tops 600, 40 and 40, the pass resolves to the
  second one: the first of the two at 40.
\<close>

theorem updateCurrentTrigger_selects_topmost_witness:
  "visibleElements demo_visible \<noteq> [] \<and>
   (\<exists>i < length (visibleElements demo_visible).
     (\<forall>j < length (visibleElements demo_visible).
        rectTop demo_page (fst (visibleElements demo_visible ! i)) \<le>
        rectTop demo_page (fst (visibleElements demo_visible ! j))) \<and>
     (\<forall>j < i. rectTop demo_page (fst (visibleElements demo_visible ! i)) <
        rectTop demo_page (fst (visibleElements demo_visible ! j))) \<and>
     lastValidTriggerId (updateCurrentTrigger demo_page demo_visible) = snd (visibleElements demo_visible ! i) \<and>
     getCurrentTriggerId (updateCurrentTrigger demo_page demo_visible) = snd (visibleElements demo_visible ! i)) \<and>
   getCurrentTriggerId (updateCurrentTrigger demo_page demo_visible) = Some ''section1''"
proof -
  have h: "visibleElements demo_visible \<noteq> []"
    by (simp add: demo_visible_def)
  have v: "getCurrentTriggerId (updateCurrentTrigger demo_page demo_visible) = Some ''section1''"
    by (simp add: demo_visible_def engine_defs demo_defs)
  from updateCurrentTrigger_selects_topmost[OF h, of demo_page] h v show ?thesis by blast
qed

text \<open>
  Claim C2, amended. From construction on, over every sequence of events without
  \<open>destroy\<close>: \<open>getCurrentTriggerId\<close> is \<open>null\<close> as long as no resolution pass has run
  on a non-empty Visible Set; and when every element that a batch of the sequence
  reports as intersecting carries the trigger attribute, it is not \<open>null\<close> once such a
  pass has run. A pass over an empty Visible Set changes nothing when
  \<open>lastValidTriggerId\<close> is \<open>null\<close>, and otherwise hands \<open>lastValidTriggerId\<close> to
  \<open>setCurrentTrigger\<close> again.
\<close>

theorem sticky_after_first_nonempty_pass:
  assumes "constructor opts iid now p0 = Inr s0" and "Destroy \<notin> set evs"
  shows "(\<not> seen_nonempty pg s0 evs \<longrightarrow> getCurrentTriggerId (run pg s0 evs) = None) \<and>
         ((\<forall>t. \<forall>e \<in> set (intersecting evs).
              getAttribute (pg t) e (triggerAttribute (config s0)) \<noteq> None) \<longrightarrow>
            seen_nonempty pg s0 evs \<longrightarrow> getCurrentTriggerId (run pg s0 evs) \<noteq> None) \<and>
         (visibleElements s = [] \<longrightarrow> lastValidTriggerId s = None \<longrightarrow>
            updateCurrentTrigger p s = s) \<and>
         (visibleElements s = [] \<longrightarrow> lastValidTriggerId s \<noteq> None \<longrightarrow>
            updateCurrentTrigger p s = setCurrentTrigger (lastValidTriggerId s) s)"
proof -
  note fresh = constructor_fresh[OF assms(1)]
  have inv: "sticky_inv s0" using fresh by (simp add: sticky_inv_def)
  have idn: "identified (visibleElements s0)" using fresh by (simp add: identified_def)
  have quiet: "\<not> seen_nonempty pg s0 evs \<longrightarrow> getCurrentTriggerId (run pg s0 evs) = None"
    using run_quiet[OF inv assms(2)] fresh by (simp add: getCurrentTriggerId_def)
  have sticky: "(\<forall>t. \<forall>e \<in> set (intersecting evs).
        getAttribute (pg t) e (triggerAttribute (config s0)) \<noteq> None) \<longrightarrow>
      seen_nonempty pg s0 evs \<longrightarrow> getCurrentTriggerId (run pg s0 evs) \<noteq> None"
    using run_resolves[OF inv idn _ assms(2)] by (simp add: getCurrentTriggerId_def)
  have empty: "visibleElements s = [] \<longrightarrow> lastValidTriggerId s = None \<longrightarrow>
      updateCurrentTrigger p s = s"
    by (simp add: updateCurrentTrigger_def)
  have again: "visibleElements s = [] \<longrightarrow> lastValidTriggerId s \<noteq> None \<longrightarrow>
      updateCurrentTrigger p s = setCurrentTrigger (lastValidTriggerId s) s"
    by (simp add: updateCurrentTrigger_def)
  from quiet sticky empty again show ?thesis by blast
qed

text \<open>
  On the example page, where element 3 has no identifier and no batch reports it: after
  section 0 became visible and a pass ran, the identifier stays set when the section
  leaves; before any pass it is \<open>null\<close>.
\<close>

theorem sticky_after_first_nonempty_pass_witness:
  "constructor no_options ''scrolly-0-demo'' 0 demo_page = Inr demo_instance \<and>
   Destroy \<notin> set [Batch [(0, True)], Advance 10, Batch [(0, False)], Advance 20] \<and>
   intersecting [Batch [(0, True)], Advance 10, Batch [(0, False)], Advance 20] = [0] \<and>
   getAttribute demo_page 0 (triggerAttribute (config demo_instance)) = Some ''intro'' \<and>
   getAttribute demo_page 3 (triggerAttribute (config demo_instance)) = None \<and>
   seen_nonempty (\<lambda>t. demo_page) demo_instance [Batch [(0, True)], Advance 10, Batch [(0, False)], Advance 20] \<and>
   getCurrentTriggerId (run (\<lambda>t. demo_page) demo_instance
      [Batch [(0, True)], Advance 10, Batch [(0, False)], Advance 20]) \<noteq> None \<and>
   \<not> seen_nonempty (\<lambda>t. demo_page) demo_instance [Batch [(0, True)]] \<and>
   getCurrentTriggerId (run (\<lambda>t. demo_page) demo_instance [Batch [(0, True)]]) = None"
proof -
  have a: "Destroy \<notin> set [Batch [(0, True)], Advance 10, Batch [(0, False)], Advance 20]" by simp
  have b: "Destroy \<notin> set [Batch [(0, True)]]" by simp
  have i: "intersecting [Batch [(0, True)], Advance 10, Batch [(0, False)], Advance 20] = [0]"
    by simp
  have g: "getAttribute demo_page 0 (triggerAttribute (config demo_instance)) = Some ''intro''"
    "getAttribute demo_page 3 (triggerAttribute (config demo_instance)) = None"
    by (simp_all add: demo_defs)
  have c: "\<forall>t. \<forall>e \<in> set (intersecting [Batch [(0, True)], Advance 10, Batch [(0, False)], Advance 20]).
      getAttribute demo_page e (triggerAttribute (config demo_instance)) \<noteq> None"
    using g(1) unfolding i by simp
  have d: "seen_nonempty (\<lambda>t. demo_page) demo_instance
      [Batch [(0, True)], Advance 10, Batch [(0, False)], Advance 20]"
    by (simp add: pass_due_def engine_defs demo_defs)
  have e: "\<not> seen_nonempty (\<lambda>t. demo_page) demo_instance [Batch [(0, True)]]"
    by simp
  from sticky_after_first_nonempty_pass[OF demo_constructed a, of "\<lambda>t. demo_page"] c d
  have 1: "getCurrentTriggerId (run (\<lambda>t. demo_page) demo_instance
      [Batch [(0, True)], Advance 10, Batch [(0, False)], Advance 20]) \<noteq> None"
    by blast
  from sticky_after_first_nonempty_pass[OF demo_constructed b, of "\<lambda>t. demo_page"] e
  have 2: "getCurrentTriggerId (run (\<lambda>t. demo_page) demo_instance [Batch [(0, True)]]) = None"
    by blast
  from demo_constructed a i g d 1 e 2 show ?thesis by blast
qed

text \<open>
  As stated, for every sequence of events, C2 fails. Section 0 becomes visible and is
  resolved to \<open>intro\<close>; then element 3, which has no \<open>data-trigger\<close> attribute, is
  observed and becomes visible while section 0 leaves. The next pass resolves to the
  \<open>null\<close> that \<open>getAttribute\<close> returned for element 3, and \<open>getCurrentTriggerId\<close>
  is \<open>null\<close> again.
\<close>

theorem missing_attribute_resets_current:
  "constructor no_options ''scrolly-0-demo'' 0 demo_page = Inr demo_instance \<and>
   Destroy \<notin> set [Batch [(0, True)], Advance 10, Observe (Some 3), Batch [(0, False), (3, True)], Advance 20] \<and>
   seen_nonempty (\<lambda>t. demo_page) demo_instance [Batch [(0, True)], Advance 10] \<and>
   getCurrentTriggerId (run (\<lambda>t. demo_page) demo_instance [Batch [(0, True)], Advance 10]) = Some ''intro'' \<and>
   getCurrentTriggerId (run (\<lambda>t. demo_page) demo_instance
      [Batch [(0, True)], Advance 10, Observe (Some 3), Batch [(0, False), (3, True)], Advance 20]) = None"
proof (intro conjI)
  show "constructor no_options ''scrolly-0-demo'' 0 demo_page = Inr demo_instance"
    by (rule demo_constructed)
  show "Destroy \<notin> set [Batch [(0, True)], Advance 10, Observe (Some 3), Batch [(0, False), (3, True)], Advance 20]"
    by simp
  show "seen_nonempty (\<lambda>t. demo_page) demo_instance [Batch [(0, True)], Advance 10]"
    by (simp add: pass_due_def engine_defs demo_defs)
  show "getCurrentTriggerId (run (\<lambda>t. demo_page) demo_instance [Batch [(0, True)], Advance 10]) = Some ''intro''"
    by (simp add: engine_defs demo_defs)
  show "getCurrentTriggerId (run (\<lambda>t. demo_page) demo_instance
      [Batch [(0, True)], Advance 10, Observe (Some 3), Batch [(0, False), (3, True)], Advance 20]) = None"
    by (simp add: engine_defs demo_defs)
qed

text \<open>
  Claim C3. \<open>setCurrentTrigger\<close> broadcasts one \<open>scrollTrigger\<close> event, with the new and
  the previous identifier, exactly when the identifier differs from \<open>currentTriggerId\<close>,
  and calls \<open>onChange\<close> with the same payload exactly then, when a callback is
  configured. Setting the same identifier twice in a row sends what setting it once
  sends: one notification when it differs from the current identifier. So does running
  the resolution pass twice in a row.
\<close>

theorem notification_exactly_on_change:
  "broadcasts (setCurrentTrigger t s) =
     broadcasts s @ (if t \<noteq> currentTriggerId s
        then [\<lparr>current = t, previous = currentTriggerId s, timestamp = clock s, detail_instanceId = instanceId s\<rparr>]
        else []) \<and>
   callbacks (setCurrentTrigger t s) =
     callbacks s @ (if t \<noteq> currentTriggerId s \<and> onChange (config s)
        then [\<lparr>current = t, previous = currentTriggerId s, timestamp = clock s, detail_instanceId = instanceId s\<rparr>]
        else []) \<and>
   egress (setCurrentTrigger t (setCurrentTrigger t s)) = egress (setCurrentTrigger t s) \<and>
   (t \<noteq> currentTriggerId s \<longrightarrow>
      length (broadcasts (setCurrentTrigger t (setCurrentTrigger t s))) = Suc (length (broadcasts s))) \<and>
   egress (updateCurrentTrigger pg (updateCurrentTrigger pg s)) = egress (updateCurrentTrigger pg s)"
proof -
  have "setCurrentTrigger t (setCurrentTrigger t s) = setCurrentTrigger t s"
    by (rule setCurrentTrigger_same) (rule setCurrentTrigger_current)
  then show ?thesis
    by (simp add: setCurrentTrigger_broadcasts setCurrentTrigger_callbacks updateCurrentTrigger_twice)
qed

text \<open>On the fresh instance, setting \<open>intro\<close> twice broadcasts once.\<close>

theorem notification_exactly_on_change_witness:
  "Some ''intro'' \<noteq> currentTriggerId demo_instance \<and>
   length (broadcasts (setCurrentTrigger (Some ''intro'') (setCurrentTrigger (Some ''intro'') demo_instance))) =
     Suc (length (broadcasts demo_instance))"
proof -
  have h: "Some ''intro'' \<noteq> currentTriggerId demo_instance"
    by (simp add: demo_instance_def fresh_instance_def)
  from notification_exactly_on_change[of "Some ''intro''" demo_instance] h show ?thesis by blast
qed



text \<open>
  Claim C5 does not hold of the code. \<open>destroy\<close> disconnects the observer and leaves
  \<open>this.observer\<close> in place, so the test \<open>this.observer && element\<close> of \<open>observe\<close>
  succeeds afterwards: the element is registered again, the next batch fills the Visible
  Set, and the destroyed instance resolves and notifies.
\<close>

theorem destroy_then_observe_registers:
  "constructor no_options ''scrolly-0-demo'' 0 demo_page = Inr demo_instance \<and>
   observer (destroy demo_instance) = Some [] \<and>
   observer (observe (Some 0) (destroy demo_instance)) = Some [0] \<and>
   getCurrentTriggerId
     (run (\<lambda>t. demo_page) demo_instance [Destroy, Observe (Some 0), Batch [(0, True)], Advance 10])
     = Some ''intro'' \<and>
   broadcasts
     (run (\<lambda>t. demo_page) demo_instance [Destroy, Observe (Some 0), Batch [(0, True)], Advance 10])
     = [\<lparr>current = Some ''intro'', previous = None, timestamp = 10, detail_instanceId = ''scrolly-0-demo''\<rparr>]"
proof (intro conjI)
  show "constructor no_options ''scrolly-0-demo'' 0 demo_page = Inr demo_instance"
    by (rule demo_constructed)
  show "observer (destroy demo_instance) = Some []"
    by (simp add: destroy_def io_disconnect_def demo_defs)
  show "observer (observe (Some 0) (destroy demo_instance)) = Some [0]"
    by (simp add: destroy_def io_disconnect_def observe_def io_observe_def demo_defs)
  show "getCurrentTriggerId
     (run (\<lambda>t. demo_page) demo_instance [Destroy, Observe (Some 0), Batch [(0, True)], Advance 10])
     = Some ''intro''"
    by (simp add: engine_defs destroy_def io_disconnect_def demo_defs)
  show "broadcasts
     (run (\<lambda>t. demo_page) demo_instance [Destroy, Observe (Some 0), Batch [(0, True)], Advance 10])
     = [\<lparr>current = Some ''intro'', previous = None, timestamp = 10, detail_instanceId = ''scrolly-0-demo''\<rparr>]"
    by (simp add: engine_defs destroy_def io_disconnect_def demo_defs broadcasts_def)
qed

text \<open>
  Claim C6, amended. Construction neither validates nor clamps \<open>debounceDelay\<close>: with
  any delay, a negative one included, construction fails exactly when it fails with the
  default delay, with the same exception, and an instance it yields holds the
  configuration of the other options with the delay as it was given.
\<close>

theorem constructor_ignores_debounceDelay:
  "(constructor (opts\<lparr>opt_debounceDelay := Some d\<rparr>) iid now p = Inl e) =
     (constructor (opts\<lparr>opt_debounceDelay := None\<rparr>) iid now p = Inl e) \<and>
   (constructor (opts\<lparr>opt_debounceDelay := Some d\<rparr>) iid now p = Inr s \<longrightarrow>
      config s = (default_config opts)\<lparr>debounceDelay := d\<rparr>)"
proof
  show "(constructor (opts\<lparr>opt_debounceDelay := Some d\<rparr>) iid now p = Inl e) =
     (constructor (opts\<lparr>opt_debounceDelay := None\<rparr>) iid now p = Inl e)"
    unfolding constructor_debounceDelay by (simp split: sum.splits)
  show "constructor (opts\<lparr>opt_debounceDelay := Some d\<rparr>) iid now p = Inr s \<longrightarrow>
      config s = (default_config opts)\<lparr>debounceDelay := d\<rparr>"
  proof
    assume "constructor (opts\<lparr>opt_debounceDelay := Some d\<rparr>) iid now p = Inr s"
    from constructor_fresh[OF this] show "config s = (default_config opts)\<lparr>debounceDelay := d\<rparr>"
      by (simp add: default_config_debounceDelay)
  qed
qed

text \<open>
  On the example page construction with the delay -5 yields the instance of the default
  options with -5 as its delay, as construction with the default delay yields an
  instance.
\<close>

theorem constructor_ignores_debounceDelay_witness:
  "constructor (no_options\<lparr>opt_debounceDelay := Some (- 5)\<rparr>) ''scrolly-0-demo'' 0 demo_page =
     Inr (demo_instance\<lparr>config := (config demo_instance)\<lparr>debounceDelay := - 5\<rparr>\<rparr>) \<and>
   config (demo_instance\<lparr>config := (config demo_instance)\<lparr>debounceDelay := - 5\<rparr>\<rparr>) =
     (default_config no_options)\<lparr>debounceDelay := - 5\<rparr> \<and>
   constructor (no_options\<lparr>opt_debounceDelay := None\<rparr>) ''scrolly-0-demo'' 0 demo_page \<noteq> Inl RangeError"
proof -
  have h: "constructor (no_options\<lparr>opt_debounceDelay := Some (- 5)\<rparr>) ''scrolly-0-demo'' 0 demo_page =
     Inr (demo_instance\<lparr>config := (config demo_instance)\<lparr>debounceDelay := - 5\<rparr>\<rparr>)"
    by (simp add: constructor_defs demo_defs)
  from constructor_ignores_debounceDelay[where opts = no_options and d = "- 5"
      and iid = "''scrolly-0-demo''" and now = 0 and p = demo_page and e = RangeError
      and s = "demo_instance\<lparr>config := (config demo_instance)\<lparr>debounceDelay := - 5\<rparr>\<rparr>"] h
  show ?thesis by simp
qed

text \<open>
  As stated, C6 fails: constructing with \<open>debounceDelay: -5\<close> succeeds and yields the
  instance of the default options with the delay -5 in its configuration.
\<close>

theorem constructor_accepts_negative_debounceDelay:
  "constructor (no_options\<lparr>opt_debounceDelay := Some (- 5)\<rparr>) ''scrolly-0-demo'' 0 demo_page =
     Inr (demo_instance\<lparr>config := (config demo_instance)\<lparr>debounceDelay := - 5\<rparr>\<rparr>)"
  by (simp add: constructor_defs demo_defs)

text \<open>
  Claim C7. The status of a list of issues is \<open>error\<close> if one issue has severity
  \<open>error\<close>, else \<open>warning\<close> if one has severity \<open>warning\<close>, else \<open>ok\<close>. The
  performance score is 10 minus 3 for every error, 1 for every warning and 0.5 for
  every info issue, floored at 0, and so lies between 0 and 10. When its query of the
  selector succeeds, \<open>diagnose\<close> computes a report that carries the status and the
  score of its own issues.
\<close>

theorem status_and_performanceScore:
  "determineStatus iss =
     (if \<exists>i \<in> set iss. severity i = ''error'' then ''error''
      else if \<exists>i \<in> set iss. severity i = ''warning'' then ''warning''
      else ''ok'') \<and>
   calculatePerformanceScore iss =
     max 0 (10 - 3 * real (count_severity ''error'' iss) - real (count_severity ''warning'' iss)
              - real (count_severity ''info'' iss) / 2) \<and>
   0 \<le> calculatePerformanceScore iss \<and> calculatePerformanceScore iss \<le> 10 \<and>
   (map_of (diagnosticCache s) (cacheKey verbose) = None \<longrightarrow>
    querySelectorAll pg (selector (config s)) = Inr els \<longrightarrow>
      (\<exists>r. fst (diagnose pg verbose s) = Inr r \<and>
           status r = determineStatus (issues r) \<and>
           performanceScore (summary r) = calculatePerformanceScore (issues r)))"
proof (intro conjI impI)
  show "determineStatus iss =
     (if \<exists>i \<in> set iss. severity i = ''error'' then ''error''
      else if \<exists>i \<in> set iss. severity i = ''warning'' then ''warning''
      else ''ok'')"
    by (simp add: determineStatus_def list_ex_iff)
  show "calculatePerformanceScore iss =
     max 0 (10 - 3 * real (count_severity ''error'' iss) - real (count_severity ''warning'' iss)
              - real (count_severity ''info'' iss) / 2)"
    by (simp add: calculatePerformanceScore_def fold_deduct)
  show "0 \<le> calculatePerformanceScore iss"
    by (simp add: calculatePerformanceScore_def)
  have "fold deduct iss 10 \<le> 10"
    by (simp add: fold_deduct)
  then show "calculatePerformanceScore iss \<le> 10"
    by (simp add: calculatePerformanceScore_def)
next
  assume "map_of (diagnosticCache s) (cacheKey verbose) = None"
    and "querySelectorAll pg (selector (config s)) = Inr els"
  from diagnose_computed[OF this]
  show "\<exists>r. fst (diagnose pg verbose s) = Inr r \<and>
           status r = determineStatus (issues r) \<and>
           performanceScore (summary r) = calculatePerformanceScore (issues r)"
    by blast
qed

text \<open>
  The report of the fresh instance is computed, not cached; one error, one warning and
  one info issue score 5.5.
\<close>

theorem status_and_performanceScore_witness:
  "map_of (diagnosticCache demo_instance) (cacheKey False) = None \<and>
   querySelectorAll demo_page (selector (config demo_instance)) = Inr [0, 1, 2] \<and>
   (\<exists>r. fst (diagnose demo_page False demo_instance) = Inr r \<and>
        status r = determineStatus (issues r) \<and>
        performanceScore (summary r) = calculatePerformanceScore (issues r)) \<and>
   calculatePerformanceScore
     [mk_issue ''no_scroll'' ''error'' None, mk_issue ''fixed_position'' ''warning'' (Some 0),
      mk_issue ''low_debounce'' ''info'' None] = 5.5"
proof -
  have h: "map_of (diagnosticCache demo_instance) (cacheKey False) = None"
    by (simp add: demo_defs)
  have q: "querySelectorAll demo_page (selector (config demo_instance)) = Inr [0, 1, 2]"
    by (simp add: demo_defs)
  from status_and_performanceScore[of "[mk_issue ''no_scroll'' ''error'' None,
      mk_issue ''fixed_position'' ''warning'' (Some 0), mk_issue ''low_debounce'' ''info'' None]"
      demo_instance False demo_page "[0, 1, 2]"] h q
  show ?thesis
    by (simp add: count_severity_def mk_issue_def)
qed

text \<open>
  Claim C8, amended. When its query of the selector succeeds, \<open>diagnose\<close> computes a
  report whose threshold-related issues are: one \<open>complex_threshold\<close> warning when the
  threshold is an array of more than 5 entries, counted with their repetitions; one
  \<open>high_threshold\<close> warning when the threshold is the number 1.0; none otherwise. In
  particular an array with more than 5 distinct values gets the \<open>complex_threshold\<close>
  warning.
\<close>

theorem threshold_warnings_by_length:
  assumes "map_of (diagnosticCache s) (cacheKey v) = None"
    and "querySelectorAll pg (selector (config s)) = Inr els"
  shows "\<exists>r. fst (diagnose pg v s) = Inr r \<and>
           threshold_issues (issues r) =
             (case threshold (config s) of
                Array ts \<Rightarrow> if 5 < length ts then [mk_issue ''complex_threshold'' ''warning'' None] else []
              | Scalar x \<Rightarrow> if x = 1 then [mk_issue ''high_threshold'' ''warning'' None] else []) \<and>
           (5 < card (distinct_thresholds (threshold (config s))) \<longrightarrow>
              threshold_issues (issues r) = [mk_issue ''complex_threshold'' ''warning'' None])"
proof -
  from diagnose_threshold_issues[OF assms] obtain r where
    r: "fst (diagnose pg v s) = Inr r"
    and c: "threshold_issues (issues r) =
             (case threshold (config s) of
                Array ts \<Rightarrow> if 5 < length ts then [mk_issue ''complex_threshold'' ''warning'' None] else []
              | Scalar x \<Rightarrow> if x = 1 then [mk_issue ''high_threshold'' ''warning'' None] else [])"
    by blast
  have "5 < card (distinct_thresholds (threshold (config s))) \<longrightarrow>
      threshold_issues (issues r) = [mk_issue ''complex_threshold'' ''warning'' None]"
    unfolding c
    by (auto simp add: distinct_thresholds_def dest: card_distinct_le split: threshold_value.splits)
  with r c show ?thesis by blast
qed

text \<open>Six distinct threshold values give the \<open>complex_threshold\<close> warning.\<close>

theorem threshold_warnings_by_length_witness:
  "map_of (diagnosticCache distinct_six) (cacheKey False) = None \<and>
   querySelectorAll demo_page (selector (config distinct_six)) = Inr [0, 1, 2] \<and>
   5 < card (distinct_thresholds (threshold (config distinct_six))) \<and>
   (\<exists>r. fst (diagnose demo_page False distinct_six) = Inr r \<and>
        threshold_issues (issues r) = [mk_issue ''complex_threshold'' ''warning'' None])"
proof -
  have h: "map_of (diagnosticCache distinct_six) (cacheKey False) = None"
    by (simp add: distinct_six_def demo_defs)
  have q: "querySelectorAll demo_page (selector (config distinct_six)) = Inr [0, 1, 2]"
    by (simp add: distinct_six_def demo_defs)
  have g: "5 < card (distinct_thresholds (threshold (config distinct_six)))"
    by (simp add: distinct_six_def distinct_thresholds_def)
  from threshold_warnings_by_length[OF h q] g h q show ?thesis by blast
qed

text \<open>
  As stated, with distinct values counted, C8 fails: the array that holds 0.5 six times
  has one distinct value and gets the \<open>complex_threshold\<close> warning.
\<close>

theorem repeated_thresholds_warned:
  "card (distinct_thresholds (threshold (config repeated_thresholds))) = 1 \<and>
   (\<exists>r. fst (diagnose demo_page False repeated_thresholds) = Inr r \<and>
        threshold_issues (issues r) = [mk_issue ''complex_threshold'' ''warning'' None])"
proof
  show "card (distinct_thresholds (threshold (config repeated_thresholds))) = 1"
    by (simp add: repeated_thresholds_def distinct_thresholds_def)
  have h: "map_of (diagnosticCache repeated_thresholds) (cacheKey False) = None"
    by (simp add: repeated_thresholds_def demo_defs)
  have q: "querySelectorAll demo_page (selector (config repeated_thresholds)) = Inr [0, 1, 2]"
    by (simp add: repeated_thresholds_def demo_defs)
  from diagnose_threshold_issues[OF h q]
  show "\<exists>r. fst (diagnose demo_page False repeated_thresholds) = Inr r \<and>
        threshold_issues (issues r) = [mk_issue ''complex_threshold'' ''warning'' None]"
    by (simp add: repeated_thresholds_def)
qed

text \<open>
  Claim C9, amended. \<open>observe(e)\<close> followed at once by \<open>unobserve(e)\<close> leaves the
  performance score that \<open>diagnose\<close> reports as it was (and \<open>diagnose\<close> raises
  afterwards what it raised before), and leaves the Visible Set as it was when \<open>e\<close>
  has no entry in it (or is \<open>null\<close>).
\<close>

theorem observe_unobserve_roundtrip:
  "diagnosedScore pg v (unobserve el (observe el s)) = diagnosedScore pg v s \<and>
   ((\<forall>e. el = Some e \<longrightarrow> e \<notin> fst ` set (visibleElements s)) \<longrightarrow>
      visibleElements (unobserve el (observe el s)) = visibleElements s)"
proof (intro conjI impI)
  show "diagnosedScore pg v (unobserve el (observe el s)) = diagnosedScore pg v s"
    by (simp add: diagnosedScore_def diagnose_observe diagnose_unobserve)
next
  assume "\<forall>e. el = Some e \<longrightarrow> e \<notin> fst ` set (visibleElements s)"
  then show "visibleElements (unobserve el (observe el s)) = visibleElements s"
    by (auto simp add: unobserve_def observe_def map_delete_absent split: option.splits)
qed

text \<open>
  With section 0 visible, observing and unobserving section 1 changes neither; the score
  reported is 10.
\<close>

theorem observe_unobserve_roundtrip_witness:
  "1 \<notin> fst ` set (visibleElements (run (\<lambda>t. demo_page) demo_instance [Batch [(0, True)]])) \<and>
   visibleElements (unobserve (Some 1) (observe (Some 1) (run (\<lambda>t. demo_page) demo_instance [Batch [(0, True)]]))) =
     visibleElements (run (\<lambda>t. demo_page) demo_instance [Batch [(0, True)]]) \<and>
   diagnosedScore demo_page False
      (unobserve (Some 1) (observe (Some 1) (run (\<lambda>t. demo_page) demo_instance [Batch [(0, True)]]))) =
     diagnosedScore demo_page False (run (\<lambda>t. demo_page) demo_instance [Batch [(0, True)]]) \<and>
   diagnosedScore demo_page False (run (\<lambda>t. demo_page) demo_instance [Batch [(0, True)]]) = Inr 10"
proof -
  have h: "1 \<notin> fst ` set (visibleElements (run (\<lambda>t. demo_page) demo_instance [Batch [(0, True)]]))"
    by (simp add: engine_defs demo_defs)
  have sc: "diagnosedScore demo_page False (run (\<lambda>t. demo_page) demo_instance [Batch [(0, True)]]) = Inr 10"
    by (simp add: diagnosedScore_def diagnose_def validateElements_def validateElement_def
        checkPerformance_def checkEnvironment_def calculatePerformanceScore_def cacheKey_def
        engine_defs demo_defs)
  from observe_unobserve_roundtrip[of demo_page False "Some 1" "run (\<lambda>t. demo_page) demo_instance [Batch [(0, True)]]"] h sc
  show ?thesis by simp
qed

text \<open>
  As stated, for every element, C9 fails: with section 0 visible, \<open>observe\<close> and then
  \<open>unobserve\<close> of section 0 evict its entry, and the Visible Set is empty.
\<close>

theorem observe_unobserve_evicts_visible:
  "visibleElements (run (\<lambda>t. demo_page) demo_instance [Batch [(0, True)]]) = [(0, Some ''intro'')] \<and>
   visibleElements (unobserve (Some 0) (observe (Some 0)
      (run (\<lambda>t. demo_page) demo_instance [Batch [(0, True)]]))) = []"
  by (simp add: engine_defs demo_defs)

text \<open>
  Claim C10, amended. After \<open>destroy\<close>, \<open>getCurrentTriggerId\<close> returns \<open>null\<close>, the
  Visible Set and the diagnostic cache are empty and \<open>lastValidTriggerId\<close> is \<open>null\<close>,
  whatever the instance had resolved before. Of the public operations, \<open>destroy\<close> is the
  only one that changes the current identifier: \<open>observe\<close>, \<open>unobserve\<close> and
  \<open>diagnose\<close> leave it as it is. And from construction on, a sequence of events without
  \<open>destroy\<close> never takes an identifier that is set back to \<open>null\<close>, when every element
  that a batch of the sequence reports as intersecting carries the trigger attribute.
\<close>

theorem destroy_resets:
  "getCurrentTriggerId (destroy s) = None \<and> visibleElements (destroy s) = [] \<and>
   lastValidTriggerId (destroy s) = None \<and> diagnosticCache (destroy s) = [] \<and>
   currentTriggerId (observe el s) = currentTriggerId s \<and>
   currentTriggerId (unobserve el s) = currentTriggerId s \<and>
   currentTriggerId (snd (diagnose p verbose s)) = currentTriggerId s \<and>
   (constructor opts iid now p0 = Inr s0 \<longrightarrow> Destroy \<notin> set (evs @ evs') \<longrightarrow>
    (\<forall>t. \<forall>e \<in> set (intersecting (evs @ evs')).
        getAttribute (pg t) e (triggerAttribute (config s0)) \<noteq> None) \<longrightarrow>
    getCurrentTriggerId (run pg s0 evs) \<noteq> None \<longrightarrow>
    getCurrentTriggerId (run pg s0 (evs @ evs')) \<noteq> None)"
proof -
  have reset: "getCurrentTriggerId (destroy s) = None \<and> visibleElements (destroy s) = [] \<and>
      lastValidTriggerId (destroy s) = None \<and> diagnosticCache (destroy s) = []"
    by (simp add: getCurrentTriggerId_def destroy_def clearTimeout_def Let_def split: option.splits)
  have frame: "currentTriggerId (observe el s) = currentTriggerId s \<and>
      currentTriggerId (unobserve el s) = currentTriggerId s \<and>
      currentTriggerId (snd (diagnose p verbose s)) = currentTriggerId s"
    by (simp add: observe_frame unobserve_frame diagnose_frame)
  have sticky: "constructor opts iid now p0 = Inr s0 \<longrightarrow> Destroy \<notin> set (evs @ evs') \<longrightarrow>
    (\<forall>t. \<forall>e \<in> set (intersecting (evs @ evs')).
        getAttribute (pg t) e (triggerAttribute (config s0)) \<noteq> None) \<longrightarrow>
    getCurrentTriggerId (run pg s0 evs) \<noteq> None \<longrightarrow>
    getCurrentTriggerId (run pg s0 (evs @ evs')) \<noteq> None"
  proof (intro impI)
    assume c: "constructor opts iid now p0 = Inr s0"
      and nd: "Destroy \<notin> set (evs @ evs')"
      and H: "\<forall>t. \<forall>e \<in> set (intersecting (evs @ evs')).
        getAttribute (pg t) e (triggerAttribute (config s0)) \<noteq> None"
      and cur: "getCurrentTriggerId (run pg s0 evs) \<noteq> None"
    note fresh = constructor_fresh[OF c]
    have inv: "sticky_inv s0" using fresh by (simp add: sticky_inv_def)
    have idn: "identified (visibleElements s0)" using fresh by (simp add: identified_def)
    have H1: "\<forall>t. \<forall>e \<in> set (intersecting evs).
        getAttribute (pg t) e (triggerAttribute (config s0)) \<noteq> None"
      using H by (simp add: intersecting_append)
    from run_inv[OF inv idn H1]
    have mid: "sticky_inv (run pg s0 evs)" "identified (visibleElements (run pg s0 evs))"
      "config (run pg s0 evs) = config s0"
      by simp_all
    have H2: "\<forall>t. \<forall>e \<in> set (intersecting evs').
        getAttribute (pg t) e (triggerAttribute (config (run pg s0 evs))) \<noteq> None"
      using H unfolding mid(3) by (simp add: intersecting_append)
    have nd2: "Destroy \<notin> set evs'" using nd by simp
    have "currentTriggerId (run pg (run pg s0 evs) evs') \<noteq> None"
      using mid(1,2) H2 nd2 cur[unfolded getCurrentTriggerId_def] by (rule run_keeps)
    then show "getCurrentTriggerId (run pg s0 (evs @ evs')) \<noteq> None"
      by (simp add: run_append getCurrentTriggerId_def)
  qed
  from reset frame sticky show ?thesis by blast
qed

text \<open>
  The instance that had resolved to \<open>intro\<close> is reset by \<open>destroy\<close>; without
  \<open>destroy\<close>, the identifier stays set when section 0 leaves and section 1 enters.
\<close>

theorem destroy_resets_witness:
  "getCurrentTriggerId demo_resolved = Some ''intro'' \<and>
   getCurrentTriggerId (destroy demo_resolved) = None \<and>
   visibleElements demo_resolved = [(0, Some ''intro'')] \<and>
   visibleElements (destroy demo_resolved) = [] \<and>
   lastValidTriggerId (destroy demo_resolved) = None \<and>
   diagnosticCache (destroy demo_resolved) = [] \<and>
   constructor no_options ''scrolly-0-demo'' 0 demo_page = Inr demo_instance \<and>
   Destroy \<notin> set ([Batch [(0, True)], Advance 10] @ [Batch [(0, False), (1, True)], Advance 30]) \<and>
   intersecting ([Batch [(0, True)], Advance 10] @ [Batch [(0, False), (1, True)], Advance 30]) = [0, 1] \<and>
   getAttribute demo_page 0 (triggerAttribute (config demo_instance)) = Some ''intro'' \<and>
   getAttribute demo_page 1 (triggerAttribute (config demo_instance)) = Some ''section1'' \<and>
   getCurrentTriggerId (run (\<lambda>t. demo_page) demo_instance [Batch [(0, True)], Advance 10]) \<noteq> None \<and>
   getCurrentTriggerId (run (\<lambda>t. demo_page) demo_instance
     ([Batch [(0, True)], Advance 10] @ [Batch [(0, False), (1, True)], Advance 30])) \<noteq> None"
proof -
  have 1: "getCurrentTriggerId demo_resolved = Some ''intro''"
    by (simp add: demo_resolved_def engine_defs demo_defs)
  have 2: "visibleElements demo_resolved = [(0, Some ''intro'')]"
    by (simp add: demo_resolved_def engine_defs demo_defs)
  have nd: "Destroy \<notin> set ([Batch [(0, True)], Advance 10] @ [Batch [(0, False), (1, True)], Advance 30])"
    by simp
  have i: "intersecting ([Batch [(0, True)], Advance 10] @ [Batch [(0, False), (1, True)], Advance 30]) = [0, 1]"
    by simp
  have g: "getAttribute demo_page 0 (triggerAttribute (config demo_instance)) = Some ''intro''"
    "getAttribute demo_page 1 (triggerAttribute (config demo_instance)) = Some ''section1''"
    by (simp_all add: demo_defs)
  have H: "\<forall>t. \<forall>e \<in> set (intersecting ([Batch [(0, True)], Advance 10] @
        [Batch [(0, False), (1, True)], Advance 30])).
      getAttribute demo_page e (triggerAttribute (config demo_instance)) \<noteq> None"
    using g unfolding i by simp
  have cur: "getCurrentTriggerId (run (\<lambda>t. demo_page) demo_instance [Batch [(0, True)], Advance 10]) \<noteq> None"
    using 1 by (simp add: demo_resolved_def)
  from destroy_resets[of demo_resolved _ _ _ no_options "''scrolly-0-demo''" 0 demo_page demo_instance
      "[Batch [(0, True)], Advance 10]" "[Batch [(0, False), (1, True)], Advance 30]" "\<lambda>t. demo_page"]
    demo_constructed nd H cur
  have 3: "getCurrentTriggerId (destroy demo_resolved) = None \<and>
      visibleElements (destroy demo_resolved) = [] \<and>
      lastValidTriggerId (destroy demo_resolved) = None \<and>
      diagnosticCache (destroy demo_resolved) = [] \<and>
      getCurrentTriggerId (run (\<lambda>t. demo_page) demo_instance
        ([Batch [(0, True)], Advance 10] @ [Batch [(0, False), (1, True)], Advance 30])) \<noteq> None"
    by blast
  from 1 2 3 demo_constructed nd i g cur show ?thesis by blast
qed

text \<open>
  As stated, with \<open>destroy\<close> the one operation that resets the identifier, C10 fails.
  The instance has resolved to \<open>intro\<close> and section 0 stays visible; element 3, which
  has no \<open>data-trigger\<close> attribute, is observed and becomes visible above it. The next
  pass resolves to element 3's \<open>null\<close>: without any \<open>destroy\<close>,
  \<open>getCurrentTriggerId\<close> is \<open>null\<close> again.
\<close>

theorem pass_resets_without_destroy:
  "Destroy \<notin> set [Observe (Some 3), Batch [(3, True)], Advance 30] \<and>
   getCurrentTriggerId demo_resolved = Some ''intro'' \<and>
   visibleElements (run (\<lambda>t. demo_page) demo_resolved [Observe (Some 3), Batch [(3, True)], Advance 30]) =
     [(0, Some ''intro''), (3, None)] \<and>
   getCurrentTriggerId
     (run (\<lambda>t. demo_page) demo_resolved [Observe (Some 3), Batch [(3, True)], Advance 30]) = None"
  by (simp add: demo_resolved_def engine_defs demo_defs)

end
